theory Spec2Isabelle
  imports Main "HOL-Library.Word"
begin

unbundle bit_operations_syntax

text \<open>
  A model of the streaming HTTP client of kubebox: \<open>src/libs/http-then.js\<close>
  (\<open>getBody\<close>, \<open>getStream\<close>, \<open>decode\<close>, \<open>decodeFrame\<close>) and the copy of
  \<open>getBody\<close> and \<open>getStream\<close> inlined in \<open>src/kubik.js\<close>.

  The code is a set of event handlers around a consumer generator. The handlers are
  functions on the state their closures share; the HTTP client of the platform is not
  part of the code, so its events are the input: a run is a list of events, handled
  one after the other. Generators follow the semantics of the language; their bodies
  are parameters. An exception is a value (\<open>Inl\<close>); one that escapes a handler
  ends the run.
\<close>

section \<open>Values\<close>

text \<open>
  A Node \<open>Buffer\<close> is a sequence of bytes. The values that travel between the
  driver and a consumer generator are JavaScript values; the ones the code handles are
  \<open>undefined\<close>, buffers and whatever a consumer yields or returns.
\<close>

type_synonym byte = "8 word"
type_synonym buffer = "byte list"

datatype jsval = Undefined | Buf buffer | Str string | Num int

text \<open>
  The response object (\<open>http.IncomingMessage\<close>) as far as the code reads and
  writes it: \<open>statusCode\<close>, \<open>headers\<close>, and the \<open>body\<close> property the
  code adds.
\<close>

record response =
  statusCode :: nat
  headers :: "(string \<times> string) list"
  body :: jsval

text \<open>
  Everything that is thrown or passed to \<open>reject\<close>. \<open>RequestFailed path r\<close> is
  the \<open>Error\<close> built by the status gate, with \<open>error.response = r\<close>;
  \<open>UpgradeFailed\<close> the one of the upgrade handler; \<open>RequestAborted\<close> is
  \<open>new Error('Request aborted')\<close>. \<open>TypeError\<close> and \<open>RangeError\<close> are
  raised by the runtime, \<open>TransportError\<close> is reported by the HTTP client, and
  \<open>Thrown\<close> is an error raised by a consumer.
\<close>

datatype fault =
    RequestFailed string response
  | UpgradeFailed string response
  | RequestAborted
  | TypeError string
  | RangeError string
  | TransportError string
  | Thrown string

section \<open>Frame decoder (\<open>decodeFrame\<close>)\<close>

text \<open>
  \<open>frame[i] & m\<close>: an index past the end of a buffer reads \<open>undefined\<close>, which
  the bitwise operators coerce to 0.
\<close>

definition byte_at :: "buffer \<Rightarrow> nat \<Rightarrow> byte" where
  "byte_at b i = (if i < length b then b ! i else 0)"

text \<open>\<open>buf.slice(start, end)\<close> and \<open>buf.slice(start)\<close>: both bounds are clamped.\<close>

definition slice :: "buffer \<Rightarrow> nat \<Rightarrow> nat \<Rightarrow> buffer" where
  "slice b s e = take (e - s) (drop s b)"

definition slice_from :: "buffer \<Rightarrow> nat \<Rightarrow> buffer" where
  "slice_from b s = drop s b"

text \<open>\<open>buf.readUInt16BE(offset)\<close> raises a \<open>RangeError\<close> when the two bytes are
  not both inside the buffer.\<close>

definition readUInt16BE :: "buffer \<Rightarrow> nat \<Rightarrow> fault + nat" where
  "readUInt16BE b off =
     (if off + 2 \<le> length b then Inr (unat (b ! off) * 256 + unat (b ! (off + 1)))
      else Inl (RangeError ''Index out of range''))"

text \<open>
  \<open>frame.readUInt64BE(nextByte)\<close>: a \<open>Buffer\<close> has no property of that name, so
  the call applies \<open>undefined\<close> and raises a \<open>TypeError\<close>, whatever the bytes are.
\<close>

definition readUInt64BE :: "buffer \<Rightarrow> nat \<Rightarrow> fault + nat" where
  "readUInt64BE b off = Inl (TypeError ''frame.readUInt64BE is not a function'')"

text \<open>
  The big-endian unsigned integer held by a run of bytes: what a 64-bit read of the
  eight bytes after the header would return.
\<close>

definition be_uint :: "buffer \<Rightarrow> nat" where
  "be_uint bs = foldl (\<lambda>acc b. acc * 256 + unat b) 0 bs"

text \<open>
  The unmasking loop
  \<^verbatim>\<open>for (let i = 0; i < payload.length; i++) payload[i] = payload[i] ^ maskingKey[i % 4];\<close>
  \<open>maskingKey[j]\<close> past the end of a short key is \<open>undefined\<close>, which \<open>^\<close>
  coerces to 0 (\<open>byte_at\<close>). The key and the payload are slices of the same buffer,
  but of disjoint ranges (\<open>[n, n + 4)\<close> and \<open>[n + 4, ...)\<close>), so writing the payload
  never changes the key.
\<close>

function unmask_from :: "nat \<Rightarrow> buffer \<Rightarrow> buffer \<Rightarrow> buffer" where
  "unmask_from i maskingKey payload =
     (if i < length payload
      then unmask_from (i + 1) maskingKey (payload[i := (payload ! i) XOR byte_at maskingKey (i mod 4)])
      else payload)"
  by pat_completeness auto
termination
  by (relation "measure (\<lambda>(i, k, p). length p - i)") auto

declare unmask_from.simps [simp del]

definition unmask :: "buffer \<Rightarrow> buffer \<Rightarrow> buffer" where
  "unmask maskingKey payload = unmask_from 0 maskingKey payload"

text \<open>
  The object \<open>decodeFrame\<close> returns: \<open>{opcode}\<close> alone for a close frame, and
  \<open>{FIN, opcode, length, payload}\<close> otherwise.
\<close>

datatype frame =
    OpcodeOnly byte
  | Frame byte byte nat buffer

fun opcode :: "frame \<Rightarrow> byte" where
  "opcode (OpcodeOnly oc) = oc"
| "opcode (Frame fin oc len pl) = oc"

fun frame_length :: "frame \<Rightarrow> nat option" where
  "frame_length (OpcodeOnly oc) = None"
| "frame_length (Frame fin oc len pl) = Some len"

text \<open>The extended length: the \<open>if (length === 126) ... else if (length === 127) ...\<close>
  step, returning the length and \<open>nextByte\<close>.\<close>

definition extended_length :: "buffer \<Rightarrow> nat \<Rightarrow> fault + (nat \<times> nat)" where
  "extended_length fr code =
     (if code = 126 then
        (case readUInt16BE fr 2 of Inl e \<Rightarrow> Inl e | Inr l \<Rightarrow> Inr (l, 4))
      else if code = 127 then
        (case readUInt64BE fr 2 of Inl e \<Rightarrow> Inl e | Inr l \<Rightarrow> Inr (l, 10))
      else Inr (code, 2))"

definition decodeFrame :: "buffer \<Rightarrow> fault + frame" where
  "decodeFrame fr =
     (let fin = byte_at fr 0 AND 0x80;
          oc = byte_at fr 0 AND 0x0F;
          mask = byte_at fr 1 AND 0x80;
          code = unat (byte_at fr 1 AND 0x7F)
      in if oc = 0x8 then Inr (OpcodeOnly oc)
         else case extended_length fr code of
           Inl e \<Rightarrow> Inl e
         | Inr (len, nextByte) \<Rightarrow>
             if mask \<noteq> 0
             then Inr (Frame fin oc len
                    (unmask (slice fr nextByte (nextByte + 4)) (slice_from fr (nextByte + 4))))
             else Inr (Frame fin oc len (slice_from fr nextByte)))"

section \<open>Generators\<close>

text \<open>
  A consumer is a generator function. Its body is not part of the driver, so it is a
  parameter: the locals it starts with and what it does when it is run from the top,
  resumed at a \<open>yield\<close> with a value, resumed with a thrown fault, or resumed with a
  forced return. Each run ends at the next \<open>yield\<close>, at a \<open>return\<close> or with an
  exception; the locals it leaves behind are kept in all three cases, so that what a
  body did (a \<open>finally\<close> block, a side effect of a \<open>catch\<close>) stays visible.
\<close>

datatype 's outcome = Yield jsval 's | Return jsval 's | Raise fault 's

record 's coroutine =
  init_locals :: 's
  start :: "'s \<Rightarrow> 's outcome"
  resume :: "'s \<Rightarrow> buffer option \<Rightarrow> 's outcome"
  raise_at :: "'s \<Rightarrow> fault \<Rightarrow> 's outcome"
  return_at :: "'s \<Rightarrow> jsval \<Rightarrow> 's outcome"

text \<open>
  The generator object. \<open>calls\<close> and \<open>seen\<close> are history variables: \<open>calls\<close>
  lists every \<open>next\<close>, \<open>throw\<close> and \<open>return\<close> invoked on the object, oldest
  first; \<open>seen\<close> lists those that reached the body at a \<open>yield\<close> (the object was
  suspended there), which are the events the consumer itself observes.
\<close>

datatype 's gstate = SuspendedStart 's | SuspendedYield 's | Completed 's

datatype call = CallNext "buffer option" | CallThrow fault | CallReturn jsval

record 's generator =
  gstate :: "'s gstate"
  calls :: "call list"
  seen :: "call list"

datatype iter_result = IterResult jsval bool

fun iter_value :: "iter_result \<Rightarrow> jsval" where
  "iter_value (IterResult v d) = v"

fun iter_done :: "iter_result \<Rightarrow> bool" where
  "iter_done (IterResult v d) = d"

text \<open>\<open>generator()\<close>: a fresh generator object, not started.\<close>

definition new_generator :: "'s coroutine \<Rightarrow> 's generator" where
  "new_generator C = \<lparr>gstate = SuspendedStart (init_locals C), calls = [], seen = []\<rparr>"

text \<open>How a run of the body ends the method call: \<open>{value, done: false}\<close> at a
  \<open>yield\<close>, \<open>{value, done: true}\<close> at a \<open>return\<close>, and the exception otherwise;
  the last two complete the generator.\<close>

fun settle :: "'s outcome \<Rightarrow> (fault + iter_result) \<times> 's gstate" where
  "settle (Yield v s) = (Inr (IterResult v False), SuspendedYield s)"
| "settle (Return v s) = (Inr (IterResult v True), Completed s)"
| "settle (Raise e s) = (Inl e, Completed s)"

text \<open>
  \<open>gen.next(x)\<close>, \<open>gen.throw(e)\<close> and \<open>gen.return(v)\<close> as the language defines
  them: a completed generator answers \<open>next\<close> with \<open>{value: undefined, done: true}\<close>,
  \<open>return(v)\<close> with \<open>{value: v, done: true}\<close> and rethrows what \<open>throw\<close> is
  given; a generator that was never started is completed by \<open>throw\<close> and
  \<open>return\<close> without running its body.
\<close>

definition gen_next :: "'s coroutine \<Rightarrow> 's generator \<Rightarrow> buffer option \<Rightarrow> (fault + iter_result) \<times> 's generator" where
  "gen_next C g x =
     (case gstate g of
        SuspendedStart s \<Rightarrow>
          (let (r, q) = settle (start C s)
           in (r, g\<lparr>gstate := q, calls := calls g @ [CallNext x]\<rparr>))
      | SuspendedYield s \<Rightarrow>
          (let (r, q) = settle (resume C s x)
           in (r, g\<lparr>gstate := q, calls := calls g @ [CallNext x], seen := seen g @ [CallNext x]\<rparr>))
      | Completed s \<Rightarrow>
          (Inr (IterResult Undefined True), g\<lparr>calls := calls g @ [CallNext x]\<rparr>))"

definition gen_throw :: "'s coroutine \<Rightarrow> 's generator \<Rightarrow> fault \<Rightarrow> (fault + iter_result) \<times> 's generator" where
  "gen_throw C g e =
     (case gstate g of
        SuspendedStart s \<Rightarrow>
          (Inl e, g\<lparr>gstate := Completed s, calls := calls g @ [CallThrow e]\<rparr>)
      | SuspendedYield s \<Rightarrow>
          (let (r, q) = settle (raise_at C s e)
           in (r, g\<lparr>gstate := q, calls := calls g @ [CallThrow e], seen := seen g @ [CallThrow e]\<rparr>))
      | Completed s \<Rightarrow>
          (Inl e, g\<lparr>calls := calls g @ [CallThrow e]\<rparr>))"

definition gen_return :: "'s coroutine \<Rightarrow> 's generator \<Rightarrow> jsval \<Rightarrow> (fault + iter_result) \<times> 's generator" where
  "gen_return C g v =
     (case gstate g of
        SuspendedStart s \<Rightarrow>
          (Inr (IterResult v True), g\<lparr>gstate := Completed s, calls := calls g @ [CallReturn v]\<rparr>)
      | SuspendedYield s \<Rightarrow>
          (let (r, q) = settle (return_at C s v)
           in (r, g\<lparr>gstate := q, calls := calls g @ [CallReturn v], seen := seen g @ [CallReturn v]\<rparr>))
      | Completed s \<Rightarrow>
          (Inr (IterResult v True), g\<lparr>calls := calls g @ [CallReturn v]\<rparr>))"

section \<open>Frame reassembly (\<open>decode\<close>)\<close>

text \<open>\<open>Buffer.alloc(n)\<close> is zero-filled. \<open>source.copy(target, targetStart)\<close> writes
  as many bytes of the source as fit into the target from \<open>targetStart\<close> on, and
  returns how many it wrote.\<close>

definition alloc :: "nat \<Rightarrow> buffer" where
  "alloc n = replicate n 0"

definition buf_copy :: "buffer \<Rightarrow> buffer \<Rightarrow> nat \<Rightarrow> buffer \<times> nat" where
  "buf_copy source target targetStart =
     (let n = min (length source) (length target - targetStart)
      in (take targetStart target @ take n source @ drop (targetStart + n) target, n))"

text \<open>
  The locals of the \<open>decode\<close> generator: the wrapped consumer generator \<open>gen\<close>,
  and \<open>frame\<close>, \<open>payload\<close>, \<open>offset\<close>. \<open>payload\<close> and \<open>offset\<close> are
  assigned before they are read, so their initial values are never seen.
\<close>

record 's decode_locals =
  d_gen :: "'s generator"
  d_frame :: "frame option"
  d_payload :: buffer
  d_offset :: nat

text \<open>\<open>return gen.next().value\<close>, after the loop.\<close>

definition decode_finish :: "'s coroutine \<Rightarrow> 's decode_locals \<Rightarrow> 's decode_locals outcome" where
  "decode_finish C d =
     (case gen_next C (d_gen d) None of
        (Inl e, g) \<Rightarrow> Raise e (d\<lparr>d_gen := g\<rparr>)
      | (Inr r, g) \<Rightarrow> Return (iter_value r) (d\<lparr>d_gen := g\<rparr>))"

text \<open>
  The end of the loop body,
  \<^verbatim>\<open>if (offset === frame.length) { try { const res = gen.next(payload); if (res.done) return res.value; } finally { frame = undefined; } }\<close>
  followed by the \<open>yield\<close> of the loop condition. The \<open>finally\<close> block runs on all
  three ways out of the \<open>try\<close>.
\<close>

definition decode_deliver :: "'s coroutine \<Rightarrow> 's decode_locals \<Rightarrow> nat option \<Rightarrow> 's decode_locals outcome" where
  "decode_deliver C d len =
     (if Some (d_offset d) = len then
        (case gen_next C (d_gen d) (Some (d_payload d)) of
           (Inl e, g) \<Rightarrow> Raise e (d\<lparr>d_gen := g, d_frame := None\<rparr>)
         | (Inr r, g) \<Rightarrow>
             if iter_done r then Return (iter_value r) (d\<lparr>d_gen := g, d_frame := None\<rparr>)
             else Yield Undefined (d\<lparr>d_gen := g, d_frame := None\<rparr>))
      else Yield Undefined d)"

text \<open>The first \<open>gen.next()\<close> of the body, up to the first \<open>yield\<close>.\<close>

definition decode_start :: "'s coroutine \<Rightarrow> 's decode_locals \<Rightarrow> 's decode_locals outcome" where
  "decode_start C d =
     (case gen_next C (d_gen d) None of
        (Inl e, g) \<Rightarrow> Raise e (d\<lparr>d_gen := g\<rparr>)
      | (Inr r, g) \<Rightarrow> Yield Undefined (d\<lparr>d_gen := g\<rparr>))"

text \<open>
  One turn of \<open>while (data = yield) { ... }\<close>: \<open>undefined\<close> is falsy and leaves the
  loop, a buffer is truthy. A close frame has no \<open>payload\<close> property, but the
  \<open>break\<close> comes before it is read.
\<close>

definition decode_resume :: "'s coroutine \<Rightarrow> 's decode_locals \<Rightarrow> buffer option \<Rightarrow> 's decode_locals outcome" where
  "decode_resume C d x =
     (case x of
        None \<Rightarrow> decode_finish C d
      | Some data \<Rightarrow>
          (case d_frame d of
             None \<Rightarrow>
               (case decodeFrame data of
                  Inl e \<Rightarrow> Raise e d
                | Inr fr \<Rightarrow>
                    if opcode fr = 0x8 then decode_finish C (d\<lparr>d_frame := Some fr\<rparr>)
                    else
                      (case fr of
                         OpcodeOnly oc \<Rightarrow>
                           Raise (TypeError ''Cannot read property length of undefined'')
                             (d\<lparr>d_frame := Some fr\<rparr>)
                       | Frame fin oc len pl \<Rightarrow>
                           if length pl = len
                           then decode_deliver C
                                  (d\<lparr>d_frame := Some fr, d_payload := pl, d_offset := length pl\<rparr>)
                                  (Some len)
                           else
                             (let (p, n) = buf_copy pl (alloc len) 0
                              in decode_deliver C
                                   (d\<lparr>d_frame := Some fr, d_payload := p, d_offset := n\<rparr>)
                                   (Some len))))
           | Some fr \<Rightarrow>
               (let (p, n) = buf_copy data (d_payload d) (d_offset d)
                in decode_deliver C (d\<lparr>d_payload := p, d_offset := d_offset d + n\<rparr>)
                     (frame_length fr))))"

text \<open>
  \<open>decode(gen)\<close> as a generator function of its own. Its \<open>yield\<close> stands outside
  every \<open>try\<close>, so a fault thrown into it propagates and a forced return completes
  it; neither is passed on to the wrapped consumer generator.
\<close>

definition decode :: "'s coroutine \<Rightarrow> 's decode_locals coroutine" where
  "decode C =
     \<lparr>init_locals = \<lparr>d_gen = new_generator C, d_frame = None, d_payload = [], d_offset = 0\<rparr>,
      start = decode_start C,
      resume = decode_resume C,
      raise_at = (\<lambda>d e. Raise e d),
      return_at = (\<lambda>d v. Return v d)\<rparr>"

section \<open>The request driver\<close>

text \<open>
  A promise is settled at most once by \<open>resolve\<close> and \<open>reject\<close>: on a settled
  promise both do nothing and raise nothing. The code only ever resolves with the
  response object a handler was given, so \<open>Resolved\<close> records which one
  (\<open>ByResponse\<close>: the one of the \<open>'response'\<close> event, \<open>ByUpgrade\<close>: the one of
  the \<open>'upgrade'\<close> event); the object itself stays in the driver state, where later
  assignments to \<open>response.body\<close> are seen by whoever holds the resolved value.
\<close>

datatype origin = ByResponse | ByUpgrade

datatype promise = Pending | Resolved origin | Rejected fault

definition resolve_promise :: "origin \<Rightarrow> promise \<Rightarrow> promise" where
  "resolve_promise w p = (case p of Pending \<Rightarrow> Resolved w | _ \<Rightarrow> p)"

definition reject_promise :: "fault \<Rightarrow> promise \<Rightarrow> promise" where
  "reject_promise e p = (case p of Pending \<Rightarrow> Rejected e | _ \<Rightarrow> p)"

text \<open>
  The two copies of the driver: \<open>src/libs/http-then.js\<close> and the one inlined in
  \<open>src/kubik.js\<close>. The second has no \<open>'upgrade'\<close> handler and rejects on every
  \<open>'error'\<close>; their \<open>'response'\<close>, \<open>'aborted'\<close>, \<open>'data'\<close> and \<open>'end'\<close>
  handlers are the same text.
\<close>

datatype impl = HttpThen | Kubik

record config =
  path :: string
  async :: bool
  impl :: impl

text \<open>
  What the HTTP client emits, and \<open>Cancel\<close>: the caller invoking the cancellation
  handle. \<open>Error\<close> and \<open>Abort\<close> are events of the request, \<open>Response\<close> and
  \<open>Upgrade\<close> carry the response object, \<open>Aborted\<close>, \<open>Data\<close> and \<open>End\<close> are
  events of the response, \<open>SocketData\<close> and \<open>SocketEnd\<close> of the upgraded socket.
\<close>

datatype event =
    Error fault
  | Abort
  | Response response
  | Aborted
  | Data buffer
  | End
  | Upgrade response
  | SocketData buffer
  | SocketEnd
  | Cancel

text \<open>
  The state of one \<open>getStream\<close> call: the closure variables \<open>clientAbort\<close> and
  \<open>serverAbort\<close>, the promise, the response object and generator of the
  \<open>'response'\<close> handler (present once its listeners are registered), the same for
  the \<open>'upgrade'\<close> handler, and what the driver has asked of the transport:
  \<open>request.abort()\<close>, the arguments of every \<open>response.destroy(...)\<close>, and
  \<open>socket.end()\<close>. \<open>uncaught\<close> holds an exception that escaped a handler.
\<close>

record 's stream_state =
  clientAbort :: bool
  serverAbort :: bool
  promise :: promise
  response :: "response option"
  gen :: "'s generator option"
  upgraded :: "response option"
  wsgen :: "'s decode_locals generator option"
  request_aborted :: bool
  destroyed :: "fault option list"
  socket_ended :: bool
  uncaught :: "fault option"

definition initial :: "'s stream_state" where
  "initial =
     \<lparr>clientAbort = False, serverAbort = False, promise = Pending, response = None,
      gen = None, upgraded = None, wsgen = None, request_aborted = False, destroyed = [],
      socket_ended = False, uncaught = None\<rparr>"

definition resolve :: "origin \<Rightarrow> 's stream_state \<Rightarrow> 's stream_state" where
  "resolve w st = st\<lparr>promise := resolve_promise w (promise st)\<rparr>"

definition reject :: "fault \<Rightarrow> 's stream_state \<Rightarrow> 's stream_state" where
  "reject e st = st\<lparr>promise := reject_promise e (promise st)\<rparr>"

text \<open>\<open>.on('error', error => { if (!clientAbort) reject(error); })\<close>, and
  \<open>.on('error', reject)\<close> in \<open>kubik.js\<close>.\<close>

definition on_error :: "config \<Rightarrow> 's stream_state \<Rightarrow> fault \<Rightarrow> 's stream_state" where
  "on_error cfg st e =
     (case impl cfg of
        HttpThen \<Rightarrow> if \<not> clientAbort st then reject e st else st
      | Kubik \<Rightarrow> reject e st)"

definition on_abort :: "'s stream_state \<Rightarrow> 's stream_state" where
  "on_abort st = st\<lparr>clientAbort := True\<rparr>"

text \<open>
  The \<open>'response'\<close> handler: the status gate, then \<open>generator()\<close> and the priming
  \<open>gen.next()\<close>, then the listeners, then \<open>if (async) resolve(response)\<close>. An
  exception of the priming call leaves the handler before anything is registered.
\<close>

definition on_response :: "'s coroutine \<Rightarrow> config \<Rightarrow> 's stream_state \<Rightarrow> response \<Rightarrow> 's stream_state" where
  "on_response C cfg st r =
     (if statusCode r \<ge> 400
      then st\<lparr>destroyed := destroyed st @ [Some (RequestFailed (path cfg) r)]\<rparr>
      else
        (case gen_next C (new_generator C) None of
           (Inl e, g) \<Rightarrow> st\<lparr>gen := Some g, uncaught := Some e\<rparr>
         | (Inr res, g) \<Rightarrow>
             (let st1 = st\<lparr>response := Some r, gen := Some g\<rparr>
              in if async cfg then resolve ByResponse st1 else st1)))"

text \<open>\<open>.on('aborted', () => serverAbort = !clientAbort)\<close>\<close>

definition on_aborted :: "'s stream_state \<Rightarrow> 's stream_state" where
  "on_aborted st =
     (case response st of
        None \<Rightarrow> st
      | Some r \<Rightarrow> st\<lparr>serverAbort := \<not> clientAbort st\<rparr>)"

text \<open>The \<open>'data'\<close> handler of the response.\<close>

definition on_data :: "'s coroutine \<Rightarrow> 's stream_state \<Rightarrow> buffer \<Rightarrow> 's stream_state" where
  "on_data C st chunk =
     (case (response st, gen st) of
        (Some r, Some g) \<Rightarrow>
          (case gen_next C g (Some chunk) of
             (Inl e, g') \<Rightarrow> st\<lparr>gen := Some g', uncaught := Some e\<rparr>
           | (Inr res, g') \<Rightarrow>
               if iter_done res
               then resolve ByResponse
                      (st\<lparr>gen := Some g', destroyed := destroyed st @ [None],
                          response := Some (r\<lparr>body := iter_value res\<rparr>)\<rparr>)
               else st\<lparr>gen := Some g'\<rparr>)
      | _ \<Rightarrow> st)"

text \<open>The closing \<open>gen.return()\<close> of the \<open>'end'\<close> handlers; its result is dropped,
  an exception of the generator's clean-up escapes the handler.\<close>

definition finalize :: "'s coroutine \<Rightarrow> 's generator \<Rightarrow> 's generator \<times> fault option" where
  "finalize C g =
     (case gen_return C g Undefined of
        (Inl e, g') \<Rightarrow> (g', Some e)
      | (Inr res, g') \<Rightarrow> (g', None))"

text \<open>
  The \<open>'end'\<close> handler of the response. \<open>serverAbort || clientAbort && !async\<close>
  takes the \<open>gen.throw\<close> branch, inside \<open>try\<close>; \<open>!(clientAbort && async)\<close> the
  \<open>gen.next()\<close> branch, outside any \<open>try\<close>; otherwise neither. \<open>gen.return()\<close>
  follows unless an exception has left the handler.
\<close>

definition on_end :: "'s coroutine \<Rightarrow> config \<Rightarrow> 's stream_state \<Rightarrow> 's stream_state" where
  "on_end C cfg st =
     (case (response st, gen st) of
        (Some r, Some g) \<Rightarrow>
          (if serverAbort st \<or> (clientAbort st \<and> \<not> async cfg) then
             (let (res, g1) = gen_throw C g RequestAborted;
                  st1 =
                    (case res of
                       Inr it \<Rightarrow>
                         if \<not> async cfg \<and> \<not> iter_done it
                         then resolve ByResponse (st\<lparr>response := Some (r\<lparr>body := iter_value it\<rparr>)\<rparr>)
                         else st
                     | Inl e \<Rightarrow> if \<not> async cfg then reject e st else st);
                  (g2, esc) = finalize C g1
              in st1\<lparr>gen := Some g2, uncaught := esc\<rparr>)
           else if \<not> (clientAbort st \<and> async cfg) then
             (case gen_next C g None of
                (Inl e, g1) \<Rightarrow> st\<lparr>gen := Some g1, uncaught := Some e\<rparr>
              | (Inr it, g1) \<Rightarrow>
                  (let st1 =
                         (if \<not> async cfg \<and> \<not> iter_done it
                          then resolve ByResponse (st\<lparr>response := Some (r\<lparr>body := iter_value it\<rparr>)\<rparr>)
                          else st);
                       (g2, esc) = finalize C g1
                   in st1\<lparr>gen := Some g2, uncaught := esc\<rparr>))
           else
             (let (g2, esc) = finalize C g
              in st\<lparr>gen := Some g2, uncaught := esc\<rparr>))
      | _ \<Rightarrow> st)"

text \<open>
  The \<open>'upgrade'\<close> handler (absent from \<open>kubik.js\<close>): the gate on status 101, then
  \<open>decode(generator())\<close> and its priming \<open>gen.next()\<close>, the socket listeners, and
  \<open>if (async) resolve(response)\<close>.
\<close>

definition on_upgrade :: "'s coroutine \<Rightarrow> config \<Rightarrow> 's stream_state \<Rightarrow> response \<Rightarrow> 's stream_state" where
  "on_upgrade C cfg st r =
     (case impl cfg of
        Kubik \<Rightarrow> st
      | HttpThen \<Rightarrow>
          if statusCode r \<noteq> 101
          then st\<lparr>destroyed := destroyed st @ [Some (UpgradeFailed (path cfg) r)]\<rparr>
          else
            (case gen_next (decode C) (new_generator (decode C)) None of
               (Inl e, g) \<Rightarrow> st\<lparr>wsgen := Some g, uncaught := Some e\<rparr>
             | (Inr res, g) \<Rightarrow>
                 (let st1 = st\<lparr>upgraded := Some r, wsgen := Some g\<rparr>
                  in if async cfg then resolve ByUpgrade st1 else st1)))"

definition on_socket_data :: "'s coroutine \<Rightarrow> 's stream_state \<Rightarrow> buffer \<Rightarrow> 's stream_state" where
  "on_socket_data C st fr =
     (case (upgraded st, wsgen st) of
        (Some r, Some g) \<Rightarrow>
          (case gen_next (decode C) g (Some fr) of
             (Inl e, g') \<Rightarrow> st\<lparr>wsgen := Some g', uncaught := Some e\<rparr>
           | (Inr res, g') \<Rightarrow>
               if iter_done res
               then resolve ByUpgrade
                      (st\<lparr>wsgen := Some g', socket_ended := True,
                          upgraded := Some (r\<lparr>body := iter_value res\<rparr>)\<rparr>)
               else st\<lparr>wsgen := Some g'\<rparr>)
      | _ \<Rightarrow> st)"

definition on_socket_end :: "'s coroutine \<Rightarrow> config \<Rightarrow> 's stream_state \<Rightarrow> 's stream_state" where
  "on_socket_end C cfg st =
     (case (upgraded st, wsgen st) of
        (Some r, Some g) \<Rightarrow>
          (if \<not> clientAbort st then
             (case gen_next (decode C) g None of
                (Inl e, g1) \<Rightarrow> st\<lparr>wsgen := Some g1, uncaught := Some e\<rparr>
              | (Inr it, g1) \<Rightarrow>
                  (let st1 =
                         (if \<not> async cfg \<and> \<not> iter_done it
                          then resolve ByUpgrade (st\<lparr>upgraded := Some (r\<lparr>body := iter_value it\<rparr>)\<rparr>)
                          else st);
                       (g2, esc) = finalize (decode C) g1
                   in st1\<lparr>wsgen := Some g2, uncaught := esc\<rparr>))
           else
             (let (g2, esc) = finalize (decode C) g
              in st\<lparr>wsgen := Some g2, uncaught := esc\<rparr>))
      | _ \<Rightarrow> st)"

text \<open>
  The cancellation handle, \<open>() => request.abort()\<close>. It touches nothing of the
  driver: \<open>clientAbort\<close> changes only when the client later emits \<open>'abort'\<close>.
  \<open>request.abort()\<close> marks the request as aborted; a call on an aborted request
  marks it again.
\<close>

definition cancellation :: "'s stream_state \<Rightarrow> 's stream_state" where
  "cancellation st = st\<lparr>request_aborted := True\<rparr>"

definition step :: "'s coroutine \<Rightarrow> config \<Rightarrow> 's stream_state \<Rightarrow> event \<Rightarrow> 's stream_state" where
  "step C cfg st ev =
     (case ev of
        Error e \<Rightarrow> on_error cfg st e
      | Abort \<Rightarrow> on_abort st
      | Response r \<Rightarrow> on_response C cfg st r
      | Aborted \<Rightarrow> on_aborted st
      | Data chunk \<Rightarrow> on_data C st chunk
      | End \<Rightarrow> on_end C cfg st
      | Upgrade r \<Rightarrow> on_upgrade C cfg st r
      | SocketData fr \<Rightarrow> on_socket_data C st fr
      | SocketEnd \<Rightarrow> on_socket_end C cfg st
      | Cancel \<Rightarrow> cancellation st)"

text \<open>
  A run of the driver over the events in the order they are emitted. An exception
  that escapes a handler reaches the event loop; the run stops there.
\<close>

fun run :: "'s coroutine \<Rightarrow> config \<Rightarrow> 's stream_state \<Rightarrow> event list \<Rightarrow> 's stream_state" where
  "run C cfg st [] = st"
| "run C cfg st (ev # evs) =
     (if uncaught st \<noteq> None then st else run C cfg (step C cfg st ev) evs)"

text \<open>\<open>getStream(options, generator, async)\<close> from the request on.\<close>

definition getStream :: "'s coroutine \<Rightarrow> config \<Rightarrow> event list \<Rightarrow> 's stream_state" where
  "getStream C cfg evs = run C cfg initial evs"

text \<open>The value a settled promise hands to its \<open>then\<close> callbacks: the response
  object it was resolved with, as it is now.\<close>

definition fulfilled :: "'s stream_state \<Rightarrow> response option" where
  "fulfilled st =
     (case promise st of
        Resolved ByResponse \<Rightarrow> response st
      | Resolved ByUpgrade \<Rightarrow> upgraded st
      | _ \<Rightarrow> None)"

section \<open>Buffered requests (\<open>getBody\<close>)\<close>

text \<open>
  The state of one \<open>getBody\<close> call: the promise, the response once the \<open>'data'\<close>
  and \<open>'end'\<close> listeners are registered, the \<open>body\<close> array, and the arguments of
  \<open>response.destroy\<close>.
\<close>

record body_state =
  b_promise :: promise
  b_response :: "response option"
  b_body :: "buffer list"
  b_destroyed :: "fault option list"

definition body_initial :: body_state where
  "body_initial = \<lparr>b_promise = Pending, b_response = None, b_body = [], b_destroyed = []\<rparr>"

definition body_step :: "config \<Rightarrow> body_state \<Rightarrow> event \<Rightarrow> body_state" where
  "body_step cfg st ev =
     (case ev of
        Response r \<Rightarrow>
          if statusCode r \<ge> 400
          then st\<lparr>b_destroyed := b_destroyed st @ [Some (RequestFailed (path cfg) r)]\<rparr>
          else st\<lparr>b_response := Some r, b_body := []\<rparr>
      | Data chunk \<Rightarrow>
          (case b_response st of
             None \<Rightarrow> st
           | Some r \<Rightarrow> st\<lparr>b_body := b_body st @ [chunk]\<rparr>)
      | End \<Rightarrow>
          (case b_response st of
             None \<Rightarrow> st
           | Some r \<Rightarrow>
               st\<lparr>b_response := Some (r\<lparr>body := Buf (concat (b_body st))\<rparr>),
                  b_promise := resolve_promise ByResponse (b_promise st)\<rparr>)
      | Error e \<Rightarrow> st\<lparr>b_promise := reject_promise e (b_promise st)\<rparr>
      | _ \<Rightarrow> st)"

fun body_run :: "config \<Rightarrow> body_state \<Rightarrow> event list \<Rightarrow> body_state" where
  "body_run cfg st [] = st"
| "body_run cfg st (ev # evs) = body_run cfg (body_step cfg st ev) evs"

definition getBody :: "config \<Rightarrow> event list \<Rightarrow> body_state" where
  "getBody cfg evs = body_run cfg body_initial evs"

section \<open>Notions used to state the properties\<close>

text \<open>The locals a generator object holds, whatever its state.\<close>

fun locals_of :: "'s gstate \<Rightarrow> 's" where
  "locals_of (SuspendedStart s) = s"
| "locals_of (SuspendedYield s) = s"
| "locals_of (Completed s) = s"

text \<open>The socket \<open>'data'\<close> handler calls \<open>gen.next(frame)\<close> on the decode generator
  for every block; \<open>feed\<close> is that sequence of calls on the generator object.\<close>

fun feed :: "'s coroutine \<Rightarrow> 's decode_locals generator \<Rightarrow> buffer list \<Rightarrow> 's decode_locals generator" where
  "feed C G [] = G"
| "feed C G (b # bs) = feed C (snd (gen_next (decode C) G (Some b))) bs"

text \<open>
  The order of calls the data model promises a consumer generator: the priming
  \<open>next()\<close>, any number of \<open>next(chunk)\<close>, then exactly one of \<open>next()\<close> (graceful
  end) and \<open>throw(fault)\<close> (abort), then \<open>return()\<close> and nothing more.
\<close>

fun finalized :: "call list \<Rightarrow> bool" where
  "finalized [CallReturn v] = True"
| "finalized cs = False"

fun chunks_then_terminal :: "call list \<Rightarrow> bool" where
  "chunks_then_terminal (CallNext (Some c) # cs) = chunks_then_terminal cs"
| "chunks_then_terminal (CallNext None # cs) = finalized cs"
| "chunks_then_terminal (CallThrow e # cs) = finalized cs"
| "chunks_then_terminal cs = False"

fun strict_order :: "call list \<Rightarrow> bool" where
  "strict_order (CallNext None # cs) = chunks_then_terminal cs"
| "strict_order cs = False"

text \<open>What the \<open>'end'\<close> handler of the response delivers before \<open>gen.return()\<close>, read
  off the two flags.\<close>

definition terminal_calls :: "config \<Rightarrow> 's stream_state \<Rightarrow> call list" where
  "terminal_calls cfg st =
     (if serverAbort st \<or> (clientAbort st \<and> \<not> async cfg) then [CallThrow RequestAborted]
      else if \<not> (clientAbort st \<and> async cfg) then [CallNext None]
      else [])"

text \<open>The events between the response headers and the end of the body: a request emits
  \<open>'response'\<close> or \<open>'upgrade'\<close> once, and \<open>'end'\<close> closes the body.\<close>

fun body_event :: "event \<Rightarrow> bool" where
  "body_event (Data c) = True"
| "body_event Abort = True"
| "body_event Aborted = True"
| "body_event Cancel = True"
| "body_event (Error e) = True"
| "body_event ev = False"

fun chunks_of :: "event list \<Rightarrow> buffer list" where
  "chunks_of [] = []"
| "chunks_of (Data c # evs) = c # chunks_of evs"
| "chunks_of (ev # evs) = chunks_of evs"

fun later_event :: "event \<Rightarrow> bool" where
  "later_event (Response r) = False"
| "later_event (Upgrade r) = False"
| "later_event ev = True"


text \<open>\<open>error.response\<close>: the response object the status gates attach to their error.\<close>

fun fault_response :: "fault \<Rightarrow> response option" where
  "fault_response (RequestFailed p r) = Some r"
| "fault_response (UpgradeFailed p r) = Some r"
| "fault_response e = None"

text \<open>A response object with the status and headers of \<open>r\<close>, whatever its body.\<close>

definition same_head :: "response \<Rightarrow> response option \<Rightarrow> bool" where
  "same_head r x = (case x of None \<Rightarrow> False | Some r' \<Rightarrow> statusCode r' = statusCode r \<and> headers r' = headers r)"

text \<open>
  What holds of an awaited request while its consumer has not finished: once the
  generator has been primed it is never back at its start, and as long as it is
  suspended at a \<open>yield\<close> the promise is pending, the response is untouched, nothing
  was destroyed, and the consumer has seen exactly the chunks \<open>cs\<close>.
\<close>

definition awaiting :: "response \<Rightarrow> buffer list \<Rightarrow> 's stream_state \<Rightarrow> bool" where
  "awaiting r cs st =
     (\<exists>g. gen st = Some g \<and> (\<exists>r'. response st = Some r') \<and>
          (\<forall>s. gstate g \<noteq> SuspendedStart s) \<and>
          (\<forall>s. gstate g = SuspendedYield s \<longrightarrow>
             promise st = Pending \<and> response st = Some r \<and> destroyed st = [] \<and>
             seen g = map (CallNext \<circ> Some) cs))"

section \<open>Consumers used as examples\<close>

text \<open>
  \<open>tail_consumer\<close> is the shape of the consumers of \<open>kubik.js\<close> without their
  effects: \<open>while (chunk = yield) { ... }\<close>, counting the chunks it was given; it
  returns at the end of the stream and does not catch a fault.
\<close>

definition tail_consumer :: "nat coroutine" where
  "tail_consumer =
     \<lparr>init_locals = 0,
      start = (\<lambda>n. Yield Undefined n),
      resume = (\<lambda>n x. case x of None \<Rightarrow> Return Undefined n | Some c \<Rightarrow> Yield Undefined (Suc n)),
      raise_at = (\<lambda>n e. Raise e n),
      return_at = (\<lambda>n v. Return v n)\<rparr>"

text \<open>\<open>take_consumer k\<close> returns \<open>"done"\<close> when it is resumed with its \<open>k\<close>-th chunk.\<close>

definition take_consumer :: "nat \<Rightarrow> nat coroutine" where
  "take_consumer k =
     \<lparr>init_locals = 0,
      start = (\<lambda>n. Yield Undefined n),
      resume = (\<lambda>n x. case x of
                 None \<Rightarrow> Return Undefined n
               | Some c \<Rightarrow> if Suc n = k then Return (Str ''done'') (Suc n) else Yield Undefined (Suc n)),
      raise_at = (\<lambda>n e. Raise e n),
      return_at = (\<lambda>n v. Return v n)\<rparr>"

text \<open>\<open>recovering_consumer\<close> wraps its loop in \<open>try\<close>/\<open>catch\<close> and returns
  \<open>"recovered"\<close> from the \<open>catch\<close> block.\<close>

definition recovering_consumer :: "nat coroutine" where
  "recovering_consumer =
     \<lparr>init_locals = 0,
      start = (\<lambda>n. Yield Undefined n),
      resume = (\<lambda>n x. case x of None \<Rightarrow> Return Undefined n | Some c \<Rightarrow> Yield Undefined (Suc n)),
      raise_at = (\<lambda>n e. Return (Str ''recovered'') n),
      return_at = (\<lambda>n v. Return v n)\<rparr>"

text \<open>\<open>failing_consumer\<close> raises in its set-up code, before its first \<open>yield\<close>.\<close>

definition failing_consumer :: "nat coroutine" where
  "failing_consumer =
     \<lparr>init_locals = 0,
      start = (\<lambda>n. Raise (Thrown ''set-up failed'') n),
      resume = (\<lambda>n x. case x of None \<Rightarrow> Return Undefined n | Some c \<Rightarrow> Yield Undefined (Suc n)),
      raise_at = (\<lambda>n e. Raise e n),
      return_at = (\<lambda>n v. Return v n)\<rparr>"

definition ok_response :: response where
  "ok_response = \<lparr>statusCode = 200, headers = [(''content-type'', ''text/plain'')], body = Undefined\<rparr>"

definition not_found :: response where
  "not_found = \<lparr>statusCode = 404, headers = [], body = Undefined\<rparr>"

definition switching :: response where
  "switching = \<lparr>statusCode = 101, headers = [(''upgrade'', ''websocket'')], body = Undefined\<rparr>"

definition eager :: config where
  "eager = \<lparr>path = ''/api/v1/pods'', async = True, impl = HttpThen\<rparr>"

definition awaited :: config where
  "awaited = \<lparr>path = ''/api/v1/pods'', async = False, impl = HttpThen\<rparr>"

text \<open>The decode generator around a \<open>tail_consumer\<close>, after the priming call of the
  \<open>'upgrade'\<close> handler.\<close>

definition primed_decoder :: "nat decode_locals generator" where
  "primed_decoder = snd (gen_next (decode tail_consumer) (new_generator (decode tail_consumer)) None)"

section \<open>Properties of the frame decoder\<close>

lemma unmask_from_length: "length (unmask_from i k p) = length p"
proof (induction i k p rule: unmask_from.induct)
  case (1 i k p)
  show ?case
  proof (cases "i < length p")
    case True
    with 1 show ?thesis by (subst unmask_from.simps) simp
  next
    case False
    then show ?thesis by (subst unmask_from.simps) simp
  qed
qed

lemma unmask_from_nth:
  "j < length p \<Longrightarrow>
   unmask_from i k p ! j = (if i \<le> j then (p ! j) XOR byte_at k (j mod 4) else p ! j)"
proof (induction i k p rule: unmask_from.induct)
  case (1 i k p)
  show ?case
  proof (cases "i < length p")
    case True
    have "unmask_from i k p = unmask_from (i + 1) k (p[i := (p ! i) XOR byte_at k (i mod 4)])"
      using True by (subst unmask_from.simps) simp
    moreover have "unmask_from (i + 1) k (p[i := (p ! i) XOR byte_at k (i mod 4)]) ! j =
        (if i + 1 \<le> j then (p[i := (p ! i) XOR byte_at k (i mod 4)] ! j) XOR byte_at k (j mod 4)
         else p[i := (p ! i) XOR byte_at k (i mod 4)] ! j)"
      using 1 True by simp
    ultimately show ?thesis
      using "1.prems" by (cases "i = j") auto
  next
    case False
    then show ?thesis using "1.prems" by (subst unmask_from.simps) simp
  qed
qed

lemma unmask_length: "length (unmask k p) = length p"
  by (simp add: unmask_def unmask_from_length)

lemma unmask_nth: "j < length p \<Longrightarrow> unmask k p ! j = (p ! j) XOR byte_at k (j mod 4)"
  by (simp add: unmask_def unmask_from_nth)

lemma unmask_involution: "unmask k (unmask k p) = p"
proof (rule nth_equalityI)
  show "length (unmask k (unmask k p)) = length p"
    by (simp add: unmask_length)
next
  fix j assume "j < length (unmask k (unmask k p))"
  then have j: "j < length p" by (simp add: unmask_length)
  then have "unmask k (unmask k p) ! j = ((p ! j) XOR byte_at k (j mod 4)) XOR byte_at k (j mod 4)"
    by (simp add: unmask_nth unmask_length)
  then show "unmask k (unmask k p) ! j = p ! j"
    by (simp add: xor.assoc)
qed

lemma decodeFrame_close:
  "byte_at fr 0 AND 0x0F = 0x8 \<Longrightarrow> decodeFrame fr = Inr (OpcodeOnly 0x8)"
  by (simp add: decodeFrame_def Let_def)


lemma decodeFrame_length_code:
  assumes "byte_at fr 0 AND 0x0F \<noteq> 0x8"
    and "unat (byte_at fr 1 AND 0x7F) \<noteq> 126"
    and "unat (byte_at fr 1 AND 0x7F) \<noteq> 127"
  shows "\<exists>fin oc pl. decodeFrame fr = Inr (Frame fin oc (unat (byte_at fr 1 AND 0x7F)) pl)"
  using assms by (simp add: decodeFrame_def Let_def extended_length_def)

lemma decodeFrame_length_16:
  assumes "byte_at fr 0 AND 0x0F \<noteq> 0x8"
    and "unat (byte_at fr 1 AND 0x7F) = 126"
    and "4 \<le> length fr"
  shows "\<exists>fin oc pl. decodeFrame fr = Inr (Frame fin oc (be_uint [fr ! 2, fr ! 3]) pl)"
  using assms by (simp add: decodeFrame_def Let_def extended_length_def readUInt16BE_def be_uint_def)

lemma decodeFrame_length_64:
  assumes "byte_at fr 0 AND 0x0F \<noteq> 0x8"
    and "unat (byte_at fr 1 AND 0x7F) = 127"
  shows "decodeFrame fr = Inl (TypeError ''frame.readUInt64BE is not a function'')"
  using assms by (simp add: decodeFrame_def Let_def extended_length_def readUInt64BE_def)

lemma be_uint_16_bound: "be_uint [a, b] < 65536"
proof -
  have "unat a < 256" "unat b < 256"
    using unsigned_less [of a, where 'a = nat] unsigned_less [of b, where 'a = nat] by simp_all
  then show ?thesis by (simp add: be_uint_def)
qed

text \<open>
  C3, the frame whose header is \<open>0x82 0x7F\<close> followed by the 64-bit length
  \<open>00 00 00 00 00 01 00 00\<close>: a binary frame, final, unmasked, length code 127,
  declaring 65536 bytes of payload. The eight bytes hold 65536, and \<open>decodeFrame\<close>
  raises a \<open>TypeError\<close> instead of returning a frame of that length.
\<close>

theorem decodeFrame_length_127_raises:
  "be_uint (slice [0x82, 0x7F, 0, 0, 0, 0, 0, 1, 0, 0] 2 10) = 65536 \<and>
   unat (byte_at [0x82, 0x7F, 0, 0, 0, 0, 0, 1, 0, 0] 1 AND 0x7F) = 127 \<and>
   decodeFrame [0x82, 0x7F, 0, 0, 0, 0, 0, 1, 0, 0] =
     Inl (TypeError ''frame.readUInt64BE is not a function'')"
  by (simp add: decodeFrame_def Let_def extended_length_def readUInt64BE_def byte_at_def
      be_uint_def slice_def)

text \<open>
  C8, the mask round trip: XOR-ing every payload byte with \<open>maskingKey[i mod 4]\<close>, as
  the loop of \<open>decodeFrame\<close> does, is its own inverse. The code has no separate
  masking function; masking and unmasking are the same loop. The equation holds for
  every key, four bytes long or not.
\<close>

theorem unmask_round_trip: "unmask K (unmask K P) = P"
proof (rule nth_equalityI)
  show "length (unmask K (unmask K P)) = length P"
    by (simp add: unmask_length)
next
  fix i assume "i < length (unmask K (unmask K P))"
  then have i: "i < length P" by (simp add: unmask_length)
  have "unmask K (unmask K P) ! i = (unmask K P ! i) XOR byte_at K (i mod 4)"
    using i by (simp add: unmask_nth unmask_length)
  also have "\<dots> = ((P ! i) XOR byte_at K (i mod 4)) XOR byte_at K (i mod 4)"
    using i by (simp add: unmask_nth)
  also have "\<dots> = P ! i"
    by (simp add: xor.assoc)
  finally show "unmask K (unmask K P) ! i = P ! i" .
qed

lemma decodeFrame_masked_payload:
  assumes "byte_at hdr 0 AND 0x0F \<noteq> 0x8"
    and "length hdr = 2"
    and "byte_at hdr 1 AND 0x80 \<noteq> 0"
    and "unat (byte_at hdr 1 AND 0x7F) < 126"
    and "length K = 4"
  shows "\<exists>fin oc len. decodeFrame (hdr @ K @ unmask K P) = Inr (Frame fin oc len P)"
proof -
  have b0: "byte_at (hdr @ K @ unmask K P) 0 = byte_at hdr 0"
    and b1: "byte_at (hdr @ K @ unmask K P) (Suc 0) = byte_at hdr (Suc 0)"
    using assms(2) by (simp_all add: byte_at_def nth_append)
  have k: "slice (hdr @ K @ unmask K P) 2 6 = K"
    using assms(2,5) by (simp add: slice_def)
  have p: "slice_from (hdr @ K @ unmask K P) 6 = unmask K P"
    using assms(2,5) by (simp add: slice_from_def)
  show ?thesis
    using assms(1,3,4) unmask_involution [of K P]
    by (simp add: decodeFrame_def Let_def extended_length_def b0 b1 k p)
qed

section \<open>Properties of the reassembly layer\<close>


lemma gen_next_calls: "calls (snd (gen_next C g x)) = calls g @ [CallNext x]"
  by (cases "gstate g") (simp_all add: gen_next_def split: prod.splits)















text \<open>
  C10 as stated fails: \<open>decode\<close> reads a frame header only at the start of a block. Of
  the two text frames \<open>"hi"\<close> and \<open>"ok"\<close> that arrive in one block, the first is
  delivered and the second, a non-close frame whose payload is whole in that block, is
  discarded with the rest of the block: the consumer is never resumed with it, and
  the next block is read as a header.
\<close>

lemmas decode_eval =
  primed_decoder_def gen_next_def new_generator_def decode_def decode_start_def
  decode_resume_def decode_deliver_def decode_finish_def decodeFrame_def extended_length_def
  readUInt64BE_def byte_at_def slice_from_def slice_def buf_copy_def alloc_def


text \<open>
  Two more frames the layer does not reassemble. A header cut by the end of a block is
  decoded from the bytes that are there: the one-byte block \<open>0x81\<close> reads as a frame
  of length 0, and the consumer is resumed with an empty buffer. A frame with length
  code 127 makes \<open>decodeFrame\<close> raise; the exception completes the decode generator
  and the consumer is not resumed at all.
\<close>

lemma split_header_delivers_empty_payload:
  "calls (d_gen (locals_of (gstate (feed tail_consumer primed_decoder
      [[0x81], [0x05, 0x68, 0x65, 0x6C, 0x6C, 0x6F]])))) =
     [CallNext None, CallNext (Some [])]"
  by (simp add: decode_eval tail_consumer_def)

lemma long_frame_never_reaches_consumer:
  "gstate (feed tail_consumer primed_decoder [[0x82, 0x7F, 0, 0, 0, 0, 0, 0, 0, 1, 0x2A]]) =
     Completed \<lparr>d_gen = \<lparr>gstate = SuspendedYield 0, calls = [CallNext None], seen = []\<rparr>,
                d_frame = None, d_payload = [], d_offset = 0\<rparr>"
  by (simp add: decode_eval tail_consumer_def)

section \<open>Properties of the request driver\<close>

text \<open>The definitions a run of the driver on given events unfolds to.\<close>

lemmas driver_eval =
  getStream_def initial_def step_def on_response_def on_data_def on_end_def on_error_def
  on_abort_def on_aborted_def cancellation_def finalize_def resolve_def reject_def
  resolve_promise_def reject_promise_def gen_next_def gen_throw_def gen_return_def
  new_generator_def terminal_calls_def Let_def

subsection \<open>The promise settles once\<close>

lemma run_uncaught: "uncaught st \<noteq> None \<Longrightarrow> run C cfg st evs = st"
  by (cases evs) simp_all

lemma run_append: "run C cfg st (xs @ ys) = run C cfg (run C cfg st xs) ys"
proof (induction xs arbitrary: st)
  case Nil
  then show ?case by simp
next
  case (Cons x xs)
  then show ?case by (simp add: run_uncaught)
qed

lemma run_snoc:
  "run C cfg st (evs @ [ev]) =
     (if uncaught (run C cfg st evs) \<noteq> None then run C cfg st evs
      else step C cfg (run C cfg st evs) ev)"
  by (simp add: run_append)

lemma resolve_promise_settled: "p \<noteq> Pending \<Longrightarrow> resolve_promise w p = p"
  by (cases p) (simp_all add: resolve_promise_def)

lemma reject_promise_settled: "p \<noteq> Pending \<Longrightarrow> reject_promise e p = p"
  by (cases p) (simp_all add: reject_promise_def)


lemma promise_reject: "promise st \<noteq> Pending \<Longrightarrow> promise (reject e st) = promise st"
  by (simp add: reject_def reject_promise_settled)

lemma promise_on_error: "promise st \<noteq> Pending \<Longrightarrow> promise (on_error cfg st e) = promise st"
  by (simp add: on_error_def promise_reject split: impl.splits)

lemma promise_on_response:
  "promise st \<noteq> Pending \<Longrightarrow> promise (on_response C cfg st r) = promise st"
  by (simp add: on_response_def resolve_def resolve_promise_settled Let_def split: prod.splits sum.splits)

lemma promise_on_data: "promise st \<noteq> Pending \<Longrightarrow> promise (on_data C st c) = promise st"
  by (simp add: on_data_def resolve_def resolve_promise_settled split: prod.splits sum.splits option.splits)

lemma promise_on_end: "promise st \<noteq> Pending \<Longrightarrow> promise (on_end C cfg st) = promise st"
  by (simp add: on_end_def resolve_def reject_def resolve_promise_settled reject_promise_settled
      Let_def split: prod.splits sum.splits option.splits)

lemma promise_on_upgrade:
  "promise st \<noteq> Pending \<Longrightarrow> promise (on_upgrade C cfg st r) = promise st"
  by (simp add: on_upgrade_def resolve_def resolve_promise_settled Let_def
      split: prod.splits sum.splits impl.splits)

lemma promise_on_socket_data:
  "promise st \<noteq> Pending \<Longrightarrow> promise (on_socket_data C st c) = promise st"
  by (simp add: on_socket_data_def resolve_def resolve_promise_settled
      split: prod.splits sum.splits option.splits)

lemma promise_on_socket_end:
  "promise st \<noteq> Pending \<Longrightarrow> promise (on_socket_end C cfg st) = promise st"
  by (simp add: on_socket_end_def resolve_def resolve_promise_settled Let_def
      split: prod.splits sum.splits option.splits)

lemma promise_step: "promise st \<noteq> Pending \<Longrightarrow> promise (step C cfg st ev) = promise st"
  by (cases ev)
    (simp_all add: step_def promise_on_error on_abort_def promise_on_response on_aborted_def
      promise_on_data promise_on_end promise_on_upgrade promise_on_socket_data
      promise_on_socket_end cancellation_def split: option.splits)

lemma promise_run: "promise st \<noteq> Pending \<Longrightarrow> promise (run C cfg st evs) = promise st"
  by (induction evs arbitrary: st) (simp_all add: promise_step)




lemma same_head_on_data: "same_head r (response st) \<Longrightarrow> same_head r (response (on_data C st c))"
  by (auto simp: on_data_def same_head_def resolve_def split: prod.splits sum.splits option.splits)

lemma same_head_on_end: "same_head r (response st) \<Longrightarrow> same_head r (response (on_end C cfg st))"
  by (auto simp: on_end_def same_head_def resolve_def reject_def Let_def
      split: prod.splits sum.splits option.splits)

lemma same_head_on_socket_data:
  "response (on_socket_data C st c) = response st"
  by (auto simp: on_socket_data_def resolve_def split: prod.splits sum.splits option.splits)

lemma same_head_on_socket_end:
  "response (on_socket_end C cfg st) = response st"
  by (auto simp: on_socket_end_def resolve_def Let_def split: prod.splits sum.splits option.splits)

lemma same_head_step:
  "later_event ev \<Longrightarrow> same_head r (response st) \<Longrightarrow> same_head r (response (step C cfg st ev))"
  by (cases ev)
    (auto simp: step_def on_error_def reject_def on_abort_def on_aborted_def same_head_on_data
      same_head_on_end same_head_on_socket_data same_head_on_socket_end cancellation_def
      split: impl.splits option.splits)

lemma same_head_run:
  "list_all later_event evs \<Longrightarrow> same_head r (response st) \<Longrightarrow>
   same_head r (response (run C cfg st evs))"
  by (induction evs arbitrary: st) (simp_all add: same_head_step)

text \<open>
  The \<open>'response'\<close> handler of an eager request, in any state in which the promise is
  pending: if it returns normally on a status below 400, the promise is resolved with
  that response, and stays so.
\<close>

lemma eager_response_resolves:
  assumes "async cfg"
    and "statusCode r < 400"
    and "promise st = Pending"
    and "uncaught (step C cfg st (Response r)) = None"
  shows "promise (step C cfg st (Response r)) = Resolved ByResponse \<and>
         fulfilled (step C cfg st (Response r)) = Some r \<and>
         (\<forall>later. list_all later_event later \<longrightarrow>
            promise (run C cfg (step C cfg st (Response r)) later) = Resolved ByResponse \<and>
            same_head r (fulfilled (run C cfg (step C cfg st (Response r)) later)))"
proof -
  let ?st = "step C cfg st (Response r)"
  obtain res g where rg: "gen_next C (new_generator C) None = (res, g)"
    by (cases "gen_next C (new_generator C) None")
  have ok: "\<exists>it. res = Inr it"
    using assms(2,4) rg by (cases res) (simp_all add: step_def on_response_def)
  then have st: "?st = resolve ByResponse (st\<lparr>response := Some r, gen := Some g\<rparr>)"
    using assms(1,2) rg by (auto simp: step_def on_response_def)
  have p: "promise ?st = Resolved ByResponse"
    using assms(3) by (simp add: st resolve_def resolve_promise_def)
  have f: "response ?st = Some r"
    by (simp add: st resolve_def)
  have f': "fulfilled ?st = Some r"
    using p f by (simp add: fulfilled_def)
  have "promise (run C cfg ?st later) = Resolved ByResponse \<and>
        same_head r (fulfilled (run C cfg ?st later))" if l: "list_all later_event later" for later
  proof -
    have p': "promise (run C cfg ?st later) = Resolved ByResponse"
      using promise_run [of ?st C cfg later] p by simp
    have "same_head r (response (run C cfg ?st later))"
      using same_head_run [OF l, of r ?st C cfg] f by (simp add: same_head_def)
    then show ?thesis using p' by (simp add: fulfilled_def)
  qed
  then show ?thesis using p f' by blast
qed

text \<open>
  C7, as the code has it. In eager mode (\<open>async\<close>), when the response headers arrive
  with a status below 400 and the \<open>'response'\<close> handler returns normally, that is,
  the priming \<open>gen.next()\<close> does not raise, the promise is resolved with that response
  on the spot; and whatever events follow, it stays resolved with a response of the
  same status and headers.
\<close>

theorem eager_resolves_on_headers:
  assumes "async cfg"
    and "statusCode r < 400"
    and "uncaught (getStream C cfg [Response r]) = None"
  shows "promise (getStream C cfg [Response r]) = Resolved ByResponse \<and>
         fulfilled (getStream C cfg [Response r]) = Some r \<and>
         (\<forall>later. list_all later_event later \<longrightarrow>
            promise (getStream C cfg (Response r # later)) = Resolved ByResponse \<and>
            same_head r (fulfilled (getStream C cfg (Response r # later))))"
proof -
  have u: "uncaught (initial :: 'a stream_state) = None"
    and p: "promise (initial :: 'a stream_state) = Pending"
    by (simp_all add: initial_def)
  have g: "getStream C cfg (Response r # evs) = run C cfg (step C cfg initial (Response r)) evs" for evs
    using u by (simp add: getStream_def)
  have h: "uncaught (step C cfg initial (Response r)) = None"
    using assms(3) g [of "[]"] by simp
  show ?thesis
    using eager_response_resolves [OF assms(1,2) p h] g [of "[]"] g by simp
qed

theorem eager_resolves_on_headers_witness:
  "promise (getStream tail_consumer eager [Response ok_response]) = Resolved ByResponse \<and>
   fulfilled (getStream tail_consumer eager [Response ok_response]) = Some ok_response \<and>
   promise (getStream tail_consumer eager [Response ok_response, Data [1], Aborted, End]) =
     Resolved ByResponse \<and>
   same_head ok_response
     (fulfilled (getStream tail_consumer eager [Response ok_response, Data [1], Aborted, End]))"
proof -
  have a: "async eager" by (simp add: eager_def)
  have b: "statusCode ok_response < 400" by (simp add: ok_response_def)
  have c: "uncaught (getStream tail_consumer eager [Response ok_response]) = None"
    by (simp add: driver_eval tail_consumer_def eager_def ok_response_def)
  have l: "list_all later_event [Data [1], Aborted, End]" by simp
  show ?thesis
    using eager_resolves_on_headers [OF a b c] l by blast
qed

text \<open>
  C7 as stated fails: the handler calls the priming \<open>gen.next()\<close> outside any
  \<open>try\<close> and before \<open>if (async) resolve(response)\<close>. A consumer whose set-up code
  raises takes the exception out of the handler, and the promise of the eager request,
  answered with status 200, is left pending.
\<close>

theorem eager_setup_fault_leaves_promise_pending:
  "async eager \<and> statusCode ok_response < 400 \<and>
   promise (getStream failing_consumer eager [Response ok_response]) = Pending \<and>
   uncaught (getStream failing_consumer eager [Response ok_response]) =
     Some (Thrown ''set-up failed'') \<and>
   promise (getStream failing_consumer eager [Response ok_response, Data [1], End]) = Pending"
  by (simp add: driver_eval failing_consumer_def eager_def ok_response_def)

lemma cancellation_twice: "cancellation (cancellation st) = cancellation st"
  by (simp add: cancellation_def)

lemma cancellation_funpow: "0 < n \<Longrightarrow> (cancellation ^^ n) st = cancellation st"
proof (induction n)
  case 0
  then show ?case by simp
next
  case (Suc n)
  then show ?case by (cases "n = 0") (simp_all add: cancellation_twice)
qed

lemma uncaught_cancellation: "uncaught (cancellation st) = uncaught st"
  by (simp add: cancellation_def)

lemma run_cancels:
  "uncaught st = None \<Longrightarrow> run C cfg st (replicate n Cancel) = (cancellation ^^ n) st"
proof (induction n arbitrary: st)
  case 0
  then show ?case by simp
next
  case (Suc n)
  have "run C cfg st (replicate (Suc n) Cancel) = run C cfg (cancellation st) (replicate n Cancel)"
    using Suc.prems by (simp add: step_def)
  also have "\<dots> = (cancellation ^^ n) (cancellation st)"
    using Suc.prems by (intro Suc.IH) (simp add: uncaught_cancellation)
  finally show ?case by (simp add: funpow_swap1)
qed

text \<open>
  C9. Invoking the cancellation handle \<open>n \<ge> 1\<close> times, in any state of the request,
  has the effect of invoking it once; it leaves the promise, the abort flags and the
  generators as they were, and raises nothing.
\<close>

theorem cancellation_idempotent:
  assumes "0 < n"
  shows "(cancellation ^^ n) st = cancellation st \<and>
         run C cfg st (replicate n Cancel) = run C cfg st [Cancel] \<and>
         promise (run C cfg st (replicate n Cancel)) = promise st \<and>
         clientAbort (run C cfg st (replicate n Cancel)) = clientAbort st \<and>
         serverAbort (run C cfg st (replicate n Cancel)) = serverAbort st \<and>
         gen (run C cfg st (replicate n Cancel)) = gen st \<and>
         wsgen (run C cfg st (replicate n Cancel)) = wsgen st \<and>
         uncaught (run C cfg st (replicate n Cancel)) = uncaught st"
proof (cases "uncaught st = None")
  case True
  have "run C cfg st (replicate n Cancel) = cancellation st"
    using True assms by (simp add: run_cancels cancellation_funpow)
  moreover have "run C cfg st [Cancel] = cancellation st"
    using True by (simp add: step_def)
  ultimately show ?thesis
    using assms by (simp add: cancellation_funpow) (simp add: cancellation_def)
next
  case False
  then have "run C cfg st (replicate n Cancel) = st" "run C cfg st [Cancel] = st"
    by (simp_all add: run_uncaught)
  then show ?thesis using assms by (simp add: cancellation_funpow)
qed

theorem cancellation_idempotent_witness:
  "run tail_consumer eager (getStream tail_consumer eager [Response ok_response, Data [1], End])
      [Cancel, Cancel, Cancel] =
   run tail_consumer eager (getStream tail_consumer eager [Response ok_response, Data [1], End])
      [Cancel] \<and>
   promise (run tail_consumer eager
      (getStream tail_consumer eager [Response ok_response, Data [1], End])
      [Cancel, Cancel, Cancel]) =
   promise (getStream tail_consumer eager [Response ok_response, Data [1], End])"
proof -
  have n: "0 < (3::nat)" by simp
  have r: "replicate 3 Cancel = [Cancel, Cancel, Cancel]" by (simp add: numeral_3_eq_3)
  show ?thesis
    using cancellation_idempotent [OF n,
        of "getStream tail_consumer eager [Response ok_response, Data [1], End]" tail_consumer eager]
    unfolding r by blast
qed

subsection \<open>Buffered requests\<close>

lemma body_step_unregistered:
  assumes "later_event ev" and "b_response st = None"
  shows "b_response (body_step cfg st ev) = None \<and> b_body (body_step cfg st ev) = b_body st \<and>
         b_destroyed (body_step cfg st ev) = b_destroyed st \<and>
         (\<forall>w. b_promise st \<noteq> Resolved w \<longrightarrow> b_promise (body_step cfg st ev) \<noteq> Resolved w) \<and>
         (b_promise st \<noteq> Pending \<longrightarrow> b_promise (body_step cfg st ev) = b_promise st)"
  using assms
  by (cases ev; cases "b_promise st") (simp_all add: body_step_def reject_promise_def)

lemma body_run_unregistered:
  assumes "list_all later_event evs" and "b_response st = None"
  shows "b_response (body_run cfg st evs) = None \<and> b_body (body_run cfg st evs) = b_body st \<and>
         b_destroyed (body_run cfg st evs) = b_destroyed st \<and>
         (\<forall>w. b_promise st \<noteq> Resolved w \<longrightarrow> b_promise (body_run cfg st evs) \<noteq> Resolved w) \<and>
         (b_promise st \<noteq> Pending \<longrightarrow> b_promise (body_run cfg st evs) = b_promise st)"
  using assms
proof (induction evs arbitrary: st)
  case Nil
  then show ?case by simp
next
  case (Cons ev evs)
  have s: "b_response (body_step cfg st ev) = None \<and> b_body (body_step cfg st ev) = b_body st \<and>
         b_destroyed (body_step cfg st ev) = b_destroyed st \<and>
         (\<forall>w. b_promise st \<noteq> Resolved w \<longrightarrow> b_promise (body_step cfg st ev) \<noteq> Resolved w) \<and>
         (b_promise st \<noteq> Pending \<longrightarrow> b_promise (body_step cfg st ev) = b_promise st)"
    using Cons.prems by (intro body_step_unregistered) simp_all
  have "list_all later_event evs" using Cons.prems by simp
  from Cons.IH [OF this, of "body_step cfg st ev"] s show ?case
    by simp
qed

text \<open>
  C5. A buffered request whose response has status 400 or more destroys the response
  with an error that carries it, registers no \<open>'data'\<close> or \<open>'end'\<close> listener, so
  that no chunk is accumulated and the promise is never resolved; and when the HTTP
  client reports that error on the request, the promise is rejected with it.
\<close>

theorem getBody_status_gate:
  assumes "400 \<le> statusCode r"
    and "list_all later_event evs"
  shows "b_destroyed (getBody cfg [Response r]) = [Some (RequestFailed (path cfg) r)] \<and>
         fault_response (RequestFailed (path cfg) r) = Some r \<and>
         b_promise (getBody cfg [Response r]) = Pending \<and>
         (\<forall>w. b_promise (getBody cfg (Response r # evs)) \<noteq> Resolved w) \<and>
         b_body (getBody cfg (Response r # evs)) = [] \<and>
         b_promise (getBody cfg (Response r # Error (RequestFailed (path cfg) r) # evs)) =
           Rejected (RequestFailed (path cfg) r)"
proof -
  let ?st = "body_step cfg body_initial (Response r)"
  have st: "?st = body_initial\<lparr>b_destroyed := [Some (RequestFailed (path cfg) r)]\<rparr>"
    using assms(1) by (simp add: body_step_def body_initial_def)
  have n: "b_response ?st = None" and p: "b_promise ?st = Pending" and b: "b_body ?st = []"
    by (simp_all only: st) (simp_all add: body_initial_def)
  note R = body_run_unregistered [OF assms(2) n, of cfg]
  let ?st2 = "body_step cfg ?st (Error (RequestFailed (path cfg) r))"
  have n2: "b_response ?st2 = None"
    and p2: "b_promise ?st2 = Rejected (RequestFailed (path cfg) r)"
    using n p by (simp_all add: body_step_def reject_promise_def)
  note R2 = body_run_unregistered [OF assms(2) n2, of cfg]
  have 1: "\<forall>w. b_promise (body_run cfg ?st evs) \<noteq> Resolved w"
    using R p by simp
  have 2: "b_body (body_run cfg ?st evs) = []"
    using R b by simp
  have 3: "b_promise (body_run cfg ?st2 evs) = Rejected (RequestFailed (path cfg) r)"
    using R2 p2 by simp
  have 4: "b_destroyed ?st = [Some (RequestFailed (path cfg) r)]"
    by (simp only: st) (simp add: body_initial_def)
  show ?thesis
    using 1 2 3 4 p by (simp add: getBody_def)
qed

theorem getBody_status_gate_witness:
  "b_promise (getBody eager [Response not_found, Error (RequestFailed (path eager) not_found), End]) =
     Rejected (RequestFailed (path eager) not_found) \<and>
   map_option statusCode (fault_response (RequestFailed (path eager) not_found)) = Some 404 \<and>
   b_body (getBody eager [Response not_found, Data [1], End]) = []"
proof -
  have a: "400 \<le> statusCode not_found" by (simp add: not_found_def)
  have l1: "list_all later_event [End]" by simp
  have l2: "list_all later_event [Data [1], End]" by simp
  show ?thesis
    using getBody_status_gate [OF a l1, of eager] getBody_status_gate [OF a l2, of eager]
    by (simp add: not_found_def)
qed

subsection \<open>The calls a consumer generator receives\<close>

lemma gen_throw_calls: "calls (snd (gen_throw C g e)) = calls g @ [CallThrow e]"
  by (cases "gstate g") (simp_all add: gen_throw_def split: prod.splits)

lemma gen_return_calls: "calls (snd (gen_return C g v)) = calls g @ [CallReturn v]"
  by (cases "gstate g") (simp_all add: gen_return_def split: prod.splits)

lemma finalize_calls: "calls (fst (finalize C g)) = calls g @ [CallReturn Undefined]"
  using gen_return_calls [of C g Undefined]
  by (cases "gen_return C g Undefined") (auto simp: finalize_def split: sum.splits)

lemma on_response_calls:
  assumes "statusCode r < 400" and "uncaught (on_response C cfg st r) = None"
  shows "\<exists>g. gen (on_response C cfg st r) = Some g \<and> calls g = [CallNext None] \<and>
             response (on_response C cfg st r) = Some r"
proof -
  obtain res g where rg: "gen_next C (new_generator C) None = (res, g)"
    by (cases "gen_next C (new_generator C) None")
  have c: "calls g = [CallNext None]"
    using gen_next_calls [of C "new_generator C" None] rg by (simp add: new_generator_def)
  show ?thesis
    using assms rg c by (cases res) (auto simp: on_response_def resolve_def Let_def)
qed

lemma on_data_calls:
  assumes "gen st = Some g" and "response st = Some r'" and "uncaught (on_data C st c) = None"
  shows "\<exists>g' r''. gen (on_data C st c) = Some g' \<and> response (on_data C st c) = Some r'' \<and>
             calls g' = calls g @ [CallNext (Some c)]"
proof -
  obtain res g1 where rg: "gen_next C g (Some c) = (res, g1)"
    by (cases "gen_next C g (Some c)")
  have c: "calls g1 = calls g @ [CallNext (Some c)]"
    using gen_next_calls [of C g "Some c"] rg by simp
  show ?thesis
    using assms rg c by (cases res) (auto simp: on_data_def resolve_def)
qed

lemma body_step_calls:
  assumes "body_event ev" and "gen st = Some g" and "response st = Some r'"
    and "uncaught (step C cfg st ev) = None"
  shows "\<exists>g' r''. gen (step C cfg st ev) = Some g' \<and> response (step C cfg st ev) = Some r'' \<and>
             calls g' = calls g @ map (CallNext \<circ> Some) (chunks_of [ev])"
proof (cases ev)
  case (Data c)
  then show ?thesis
    using assms on_data_calls [of st g r' C c] by (simp add: step_def)
qed (use assms in \<open>auto simp: step_def on_error_def reject_def on_abort_def on_aborted_def
      cancellation_def split: impl.splits\<close>)

lemma chunks_of_Cons: "chunks_of (ev # evs) = chunks_of [ev] @ chunks_of evs"
  by (cases ev) simp_all

lemma body_run_calls:
  assumes "list_all body_event mid" and "gen st = Some g" and "response st = Some r'"
    and "uncaught (run C cfg st mid) = None"
  shows "\<exists>g' r''. gen (run C cfg st mid) = Some g' \<and> response (run C cfg st mid) = Some r'' \<and>
             calls g' = calls g @ map (CallNext \<circ> Some) (chunks_of mid)"
  using assms
proof (induction mid arbitrary: st g r')
  case Nil
  then show ?case by simp
next
  case (Cons ev mid)
  have u0: "uncaught st = None"
    using Cons.prems(4) by (cases "uncaught st") simp_all
  then have r: "run C cfg st (ev # mid) = run C cfg (step C cfg st ev) mid"
    by simp
  have u1: "uncaught (step C cfg st ev) = None"
  proof (rule ccontr)
    assume "uncaught (step C cfg st ev) \<noteq> None"
    then have "run C cfg (step C cfg st ev) mid = step C cfg st ev"
      by (rule run_uncaught)
    then show False
      using Cons.prems(4) r \<open>uncaught (step C cfg st ev) \<noteq> None\<close> by simp
  qed
  have be: "body_event ev" and l: "list_all body_event mid"
    using Cons.prems(1) by simp_all
  obtain g1 r1 where s1: "gen (step C cfg st ev) = Some g1" "response (step C cfg st ev) = Some r1"
      "calls g1 = calls g @ map (CallNext \<circ> Some) (chunks_of [ev])"
    using body_step_calls [OF be Cons.prems(2,3) u1] by blast
  have u2: "uncaught (run C cfg (step C cfg st ev) mid) = None"
    using Cons.prems(4) r by simp
  obtain g2 r2 where s2: "gen (run C cfg (step C cfg st ev) mid) = Some g2"
      "response (run C cfg (step C cfg st ev) mid) = Some r2"
      "calls g2 = calls g1 @ map (CallNext \<circ> Some) (chunks_of mid)"
    using Cons.IH [OF l s1(1,2) u2] by blast
  show ?case
    using s1 s2 r by (simp add: chunks_of_Cons [of ev mid])
qed

lemma on_end_calls:
  assumes "gen st = Some g" and "response st = Some r'" and "uncaught (on_end C cfg st) = None"
  shows "\<exists>g'. gen (on_end C cfg st) = Some g' \<and>
             calls g' = calls g @ terminal_calls cfg st @ [CallReturn Undefined]"
proof -
  consider (thrown) "serverAbort st \<or> (clientAbort st \<and> \<not> async cfg)"
    | (ended) "\<not> (serverAbort st \<or> (clientAbort st \<and> \<not> async cfg))" "\<not> (clientAbort st \<and> async cfg)"
    | (neither) "\<not> (serverAbort st \<or> (clientAbort st \<and> \<not> async cfg))" "clientAbort st \<and> async cfg"
    by blast
  then show ?thesis
  proof cases
    case thrown
    obtain res g1 where rg: "gen_throw C g RequestAborted = (res, g1)"
      by (cases "gen_throw C g RequestAborted")
    obtain g2 esc where fin: "finalize C g1 = (g2, esc)"
      by (cases "finalize C g1")
    have "calls g1 = calls g @ [CallThrow RequestAborted]"
      using gen_throw_calls [of C g RequestAborted] rg by simp
    moreover have "calls g2 = calls g1 @ [CallReturn Undefined]"
      using finalize_calls [of C g1] fin by simp
    ultimately show ?thesis
      using assms(1,2) thrown rg fin
      by (simp add: on_end_def terminal_calls_def)
  next
    case ended
    obtain res g1 where rg: "gen_next C g None = (res, g1)"
      by (cases "gen_next C g None")
    obtain g2 esc where fin: "finalize C g1 = (g2, esc)"
      by (cases "finalize C g1")
    have c1: "calls g1 = calls g @ [CallNext None]"
      using gen_next_calls [of C g None] rg by simp
    have c2: "calls g2 = calls g1 @ [CallReturn Undefined]"
      using finalize_calls [of C g1] fin by simp
    show ?thesis
    proof (cases res)
      case (Inl e)
      then show ?thesis
        using assms ended rg by (simp add: on_end_def)
    next
      case (Inr it)
      then show ?thesis
        using assms(1,2) ended rg fin c1 c2
        by (simp add: on_end_def terminal_calls_def)
    qed
  next
    case neither
    obtain g2 esc where fin: "finalize C g = (g2, esc)"
      by (cases "finalize C g")
    have "calls g2 = calls g @ [CallReturn Undefined]"
      using finalize_calls [of C g] fin by simp
    then show ?thesis
      using assms(1,2) neither fin
      by (simp add: on_end_def terminal_calls_def)
  qed
qed

lemma chunks_then_terminal_chunks:
  "chunks_then_terminal (map (CallNext \<circ> Some) cs @ rest) = chunks_then_terminal rest"
  by (induction cs) simp_all

lemma strict_order_terminal:
  "strict_order (CallNext None # map (CallNext \<circ> Some) cs @ terminal_calls cfg st @ [CallReturn v]) =
     (\<not> (clientAbort st \<and> async cfg \<and> \<not> serverAbort st))"
  by (auto simp: chunks_then_terminal_chunks terminal_calls_def)


lemma uncaught_initial: "uncaught (initial :: 's stream_state) = None"
  by (simp add: initial_def)

lemma run_uncaught_prefix:
  assumes "uncaught (run C cfg st (xs @ ys)) = None"
  shows "uncaught (run C cfg st xs) = None"
proof (rule ccontr)
  assume a: "uncaught (run C cfg st xs) \<noteq> None"
  then have "run C cfg (run C cfg st xs) ys = run C cfg st xs"
    by (rule run_uncaught)
  then show False using assms a by (simp add: run_append)
qed

text \<open>
  C1, as the code has it. For a streaming request answered with a status below 400
  over plain HTTP, every handler returning normally: when \<open>'end'\<close> arrives, the
  generator has received the priming \<open>next()\<close>, one \<open>next(chunk)\<close> per \<open>'data'\<close>
  event in order, then what \<open>terminal_calls\<close> says (\<open>throw\<close> of the abort fault
  after a server abort or an awaited client cancellation, \<open>next()\<close> after a graceful
  end, and nothing after an eager client cancellation), then \<open>return()\<close>. The order
  is the strict one of the data model exactly when the request was not cancelled by the
  client in eager mode without a server abort.
\<close>

theorem plain_stream_call_order:
  assumes "statusCode r < 400"
    and "list_all body_event mid"
    and "uncaught (getStream C cfg (Response r # mid @ [End])) = None"
  shows "\<exists>g. gen (getStream C cfg (Response r # mid @ [End])) = Some g \<and>
           calls g = CallNext None # map (CallNext \<circ> Some) (chunks_of mid) @
                     terminal_calls cfg (getStream C cfg (Response r # mid)) @
                     [CallReturn Undefined] \<and>
           strict_order (calls g) =
             (\<not> (clientAbort (getStream C cfg (Response r # mid)) \<and> async cfg \<and>
                 \<not> serverAbort (getStream C cfg (Response r # mid))))"
proof -
  let ?s0 = "on_response C cfg initial r"
  let ?s1 = "run C cfg ?s0 mid"
  have e0: "getStream C cfg [Response r] = ?s0"
    by (simp add: getStream_def uncaught_initial step_def)
  have e1: "getStream C cfg (Response r # mid) = ?s1"
    by (simp add: getStream_def uncaught_initial step_def)
  have all: "getStream C cfg (Response r # mid @ [End]) = run C cfg ?s1 [End]"
    by (simp add: getStream_def uncaught_initial step_def run_append)
  have u1: "uncaught ?s1 = None"
    using assms(3) run_uncaught_prefix [of C cfg ?s0 mid "[End]"]
    by (simp add: getStream_def uncaught_initial step_def)
  have u0: "uncaught ?s0 = None"
    using u1 run_uncaught_prefix [of C cfg ?s0 "[]" mid] by simp
  have e2: "getStream C cfg (Response r # mid @ [End]) = on_end C cfg ?s1"
    using u1 by (simp add: all step_def)
  obtain g0 where g0: "gen ?s0 = Some g0" "calls g0 = [CallNext None]" "response ?s0 = Some r"
    using on_response_calls [OF assms(1) u0] by blast
  obtain g1 r1 where g1: "gen ?s1 = Some g1" "response ?s1 = Some r1"
      "calls g1 = calls g0 @ map (CallNext \<circ> Some) (chunks_of mid)"
    using body_run_calls [OF assms(2) g0(1) g0(3) u1] by blast
  have u2: "uncaught (on_end C cfg ?s1) = None"
    using assms(3) e2 by simp
  obtain g2 where g2: "gen (on_end C cfg ?s1) = Some g2"
      "calls g2 = calls g1 @ terminal_calls cfg ?s1 @ [CallReturn Undefined]"
    using on_end_calls [OF g1(1,2) u2] by blast
  have c: "calls g2 = CallNext None # map (CallNext \<circ> Some) (chunks_of mid) @
                     terminal_calls cfg ?s1 @ [CallReturn Undefined]"
    using g0(2) g1(3) g2(2) by simp
  have "strict_order (calls g2) = (\<not> (clientAbort ?s1 \<and> async cfg \<and> \<not> serverAbort ?s1))"
    unfolding c by (rule strict_order_terminal)
  then show ?thesis
    using g2(1) c by (simp add: e1 e2)
qed

lemma awaited_server_abort_run:
  "getStream tail_consumer awaited [Response ok_response, Data [1], Data [2], Aborted, End] =
     \<lparr>clientAbort = False, serverAbort = True, promise = Rejected RequestAborted,
      response = Some ok_response,
      gen = Some \<lparr>gstate = Completed 2,
                  calls = [CallNext None, CallNext (Some [1]), CallNext (Some [2]),
                           CallThrow RequestAborted, CallReturn Undefined],
                  seen = [CallNext (Some [1]), CallNext (Some [2]), CallThrow RequestAborted]\<rparr>,
      upgraded = None, wsgen = None, request_aborted = False, destroyed = [],
      socket_ended = False, uncaught = None\<rparr>"
  by (simp add: driver_eval tail_consumer_def awaited_def ok_response_def)

theorem plain_stream_call_order_witness:
  "gen (getStream tail_consumer awaited [Response ok_response, Data [1], Data [2], Aborted, End]) =
     Some \<lparr>gstate = Completed 2,
           calls = [CallNext None, CallNext (Some [1]), CallNext (Some [2]),
                    CallThrow RequestAborted, CallReturn Undefined],
           seen = [CallNext (Some [1]), CallNext (Some [2]), CallThrow RequestAborted]\<rparr> \<and>
   strict_order [CallNext None, CallNext (Some [1]), CallNext (Some [2]),
                 CallThrow RequestAborted, CallReturn Undefined]"
proof -
  have a: "statusCode ok_response < 400" by (simp add: ok_response_def)
  have b: "list_all body_event [Data [1], Data [2], Aborted]" by simp
  have c: "uncaught (getStream tail_consumer awaited
      (Response ok_response # [Data [1], Data [2], Aborted] @ [End])) = None"
    using awaited_server_abort_run by simp
  show ?thesis
    using plain_stream_call_order [OF a b c] awaited_server_abort_run by simp
qed

text \<open>
  C1 as stated fails: an eager request cancelled by the client (\<open>'abort'\<close>, then
  \<open>'aborted'\<close> and \<open>'end'\<close> of the response) gives its consumer one chunk and then
  \<open>return()\<close>, with neither a graceful end nor an abort in between.
\<close>

theorem eager_cancel_skips_terminal_delivery:
  "gen (getStream tail_consumer eager [Response ok_response, Data [1], Abort, Aborted, End]) =
     Some \<lparr>gstate = Completed 1,
           calls = [CallNext None, CallNext (Some [1]), CallReturn Undefined],
           seen = [CallNext (Some [1]), CallReturn Undefined]\<rparr> \<and>
   uncaught (getStream tail_consumer eager [Response ok_response, Data [1], Abort, Aborted, End]) = None \<and>
   \<not> strict_order [CallNext None, CallNext (Some [1]), CallReturn Undefined]"
  by (simp add: driver_eval tail_consumer_def eager_def ok_response_def)

text \<open>
  On the upgrade path the closing \<open>gen.return()\<close> is addressed to the decode
  generator, whose \<open>yield\<close> is outside any \<open>try\<close>: the wrapped consumer generator
  is resumed with the payload and with the end of the stream, and never receives
  \<open>return()\<close>.
\<close>

lemmas upgrade_eval =
  on_upgrade_def on_socket_data_def on_socket_end_def decode_def decode_start_def
  decode_resume_def decode_deliver_def decode_finish_def decodeFrame_def extended_length_def
  byte_at_def slice_from_def slice_def buf_copy_def alloc_def

lemma upgrade_consumer_not_finalized:
  "map_option (\<lambda>G. calls (d_gen (locals_of (gstate G))))
     (wsgen (getStream tail_consumer eager
        [Upgrade switching, SocketData [0x81, 0x02, 0x68, 0x69], SocketEnd])) =
     Some [CallNext None, CallNext (Some [0x68, 0x69]), CallNext None] \<and>
   map_option calls
     (wsgen (getStream tail_consumer eager
        [Upgrade switching, SocketData [0x81, 0x02, 0x68, 0x69], SocketEnd])) =
     Some [CallNext None, CallNext (Some [0x81, 0x02, 0x68, 0x69]), CallNext None,
           CallReturn Undefined]"
  by (simp add: driver_eval upgrade_eval tail_consumer_def eager_def switching_def)

lemma on_end_abort_return:
  assumes "\<not> async cfg" and "response st = Some r'" and "gen st = Some g"
    and "gstate g = SuspendedYield s"
    and "serverAbort st \<or> clientAbort st"
    and "raise_at C s RequestAborted = Return v s'"
  shows "promise (on_end C cfg st) = promise st"
  using assms
  by (auto simp: on_end_def gen_throw_def finalize_def gen_return_def Let_def)

lemma on_end_abort_yield:
  assumes "\<not> async cfg" and "response st = Some r'" and "gen st = Some g"
    and "gstate g = SuspendedYield s"
    and "serverAbort st \<or> clientAbort st"
    and "raise_at C s RequestAborted = Yield v s'"
    and "promise st = Pending"
  shows "promise (on_end C cfg st) = Resolved ByResponse \<and>
         response (on_end C cfg st) = Some (r'\<lparr>body := v\<rparr>)"
  using assms
  by (cases "return_at C s' Undefined")
    (auto simp: on_end_def gen_throw_def finalize_def gen_return_def Let_def resolve_def
      resolve_promise_def)

lemma on_end_abort_raise:
  assumes "\<not> async cfg" and "response st = Some r'" and "gen st = Some g"
    and "gstate g = SuspendedYield s"
    and "serverAbort st \<or> clientAbort st"
    and "raise_at C s RequestAborted = Raise e s'"
    and "promise st = Pending"
  shows "promise (on_end C cfg st) = Rejected e"
  using assms
  by (auto simp: on_end_def gen_throw_def finalize_def gen_return_def Let_def reject_def
      reject_promise_def)

text \<open>
  C2, at a consumer that catches the abort fault and returns \<open>"recovered"\<close>: in awaited
  mode, after a server abort, \<open>gen.throw\<close> answers \<open>{value: "recovered", done: true}\<close>,
  the guard \<open>!async && !res.done\<close> is false, and the promise is left pending. The
  lemmas above give the three cases: a consumer that returns leaves the promise as it
  was, one that yields resolves it with the yielded value, one that raises rejects it.
\<close>

theorem abort_recovered_by_return_stays_pending:
  "promise (getStream recovering_consumer awaited [Response ok_response, Data [1], Aborted, End]) = Pending \<and>
   gen (getStream recovering_consumer awaited [Response ok_response, Data [1], Aborted, End]) =
     Some \<lparr>gstate = Completed 1,
           calls = [CallNext None, CallNext (Some [1]), CallThrow RequestAborted, CallReturn Undefined],
           seen = [CallNext (Some [1]), CallThrow RequestAborted]\<rparr> \<and>
   raise_at recovering_consumer 1 RequestAborted = Return (Str ''recovered'') 1"
  by (simp add: driver_eval recovering_consumer_def awaited_def ok_response_def)

subsection \<open>A consumer that finishes on a chunk\<close>

lemma settle_not_start: "settle out = (a, q) \<Longrightarrow> q \<noteq> SuspendedStart s"
  by (cases out) auto

lemma getStream_append: "getStream C cfg (xs @ ys) = run C cfg (getStream C cfg xs) ys"
  by (simp add: getStream_def run_append)

lemma getStream_snoc:
  "uncaught (getStream C cfg evs) = None \<Longrightarrow>
   getStream C cfg (evs @ [ev]) = step C cfg (getStream C cfg evs) ev"
  by (simp add: getStream_append)

lemma gen_next_from_yield:
  assumes "gstate (snd (gen_next C g x)) = SuspendedYield s'"
    and "\<And>s. gstate g \<noteq> SuspendedStart s"
  shows "\<exists>s v. gstate g = SuspendedYield s \<and> resume C s x = Yield v s' \<and>
               gen_next C g x = (Inr (IterResult v False),
                 g\<lparr>gstate := SuspendedYield s', calls := calls g @ [CallNext x],
                    seen := seen g @ [CallNext x]\<rparr>)"
proof (cases "gstate g")
  case (SuspendedStart s)
  then show ?thesis using assms(2) by simp
next
  case (SuspendedYield s)
  then show ?thesis
    using assms(1) by (cases "resume C s x") (simp_all add: gen_next_def)
next
  case (Completed s)
  then show ?thesis using assms(1) by (simp add: gen_next_def)
qed

lemma gen_next_not_start:
  "(\<And>s. gstate g \<noteq> SuspendedStart s) \<Longrightarrow> gstate (snd (gen_next C g x)) \<noteq> SuspendedStart s'"
  by (cases "gstate g") (auto simp: gen_next_def split: prod.splits dest: settle_not_start)

lemma awaiting_response:
  assumes "\<not> async cfg" and "statusCode r < 400"
    and "uncaught (on_response C cfg initial r) = None"
  shows "awaiting r [] (on_response C cfg initial r)"
proof -
  obtain res g where rg: "gen_next C (new_generator C) None = (res, g)"
    by (cases "gen_next C (new_generator C) None")
  have ns: "\<And>s. gstate g \<noteq> SuspendedStart s"
    using rg
    by (auto simp: gen_next_def new_generator_def split: prod.splits dest: settle_not_start)
  have sn: "seen g = []"
    using rg by (auto simp: gen_next_def new_generator_def split: prod.splits)
  show ?thesis
    using assms rg ns sn
    by (cases res) (auto simp: on_response_def awaiting_def initial_def)
qed

lemma awaiting_data:
  assumes "awaiting r cs st" and "uncaught (on_data C st c) = None"
  shows "awaiting r (cs @ [c]) (on_data C st c)"
proof -
  obtain g r' where g: "gen st = Some g" "response st = Some r'"
      "\<And>s. gstate g \<noteq> SuspendedStart s"
      "\<And>s. gstate g = SuspendedYield s \<Longrightarrow>
         promise st = Pending \<and> response st = Some r \<and> destroyed st = [] \<and>
         seen g = map (CallNext \<circ> Some) cs"
    using assms(1) unfolding awaiting_def by blast
  obtain res g1 where rg: "gen_next C g (Some c) = (res, g1)"
    by (cases "gen_next C g (Some c)")
  have g1: "gen (on_data C st c) = Some g1"
    using g(1,2) rg by (cases res) (auto simp: on_data_def resolve_def)
  have r1: "\<exists>r''. response (on_data C st c) = Some r''"
    using g(1,2) rg by (cases res) (auto simp: on_data_def resolve_def)
  have ns: "\<And>s. gstate g1 \<noteq> SuspendedStart s"
    using gen_next_not_start [of g C "Some c"] g(3) rg by simp
  have y: "promise (on_data C st c) = Pending \<and> response (on_data C st c) = Some r \<and>
           destroyed (on_data C st c) = [] \<and> seen g1 = map (CallNext \<circ> Some) (cs @ [c])"
    if "gstate g1 = SuspendedYield s'" for s'
  proof -
    have "gstate (snd (gen_next C g (Some c))) = SuspendedYield s'"
      using that rg by simp
    then obtain s v where sv: "gstate g = SuspendedYield s"
        "gen_next C g (Some c) = (Inr (IterResult v False),
           g\<lparr>gstate := SuspendedYield s', calls := calls g @ [CallNext (Some c)],
              seen := seen g @ [CallNext (Some c)]\<rparr>)"
      using gen_next_from_yield [of C g "Some c" s'] g(3) by blast
    have eq: "res = Inr (IterResult v False)"
        "g1 = g\<lparr>gstate := SuspendedYield s', calls := calls g @ [CallNext (Some c)],
              seen := seen g @ [CallNext (Some c)]\<rparr>"
      using rg sv(2) by simp_all
    have "on_data C st c = st\<lparr>gen := Some g1\<rparr>"
      using g(1,2) rg by (simp add: on_data_def eq(1))
    moreover have "seen g1 = seen g @ [CallNext (Some c)]"
      by (simp add: eq(2))
    ultimately show ?thesis
      using g(4) [OF sv(1)] by simp
  qed
  show ?thesis
    unfolding awaiting_def using g1 r1 ns y by blast
qed

lemma awaiting_run:
  assumes "\<not> async cfg" and "statusCode r < 400"
    and "uncaught (getStream C cfg (Response r # map Data cs)) = None"
  shows "awaiting r cs (getStream C cfg (Response r # map Data cs))"
  using assms(3)
proof (induction cs rule: rev_induct)
  case Nil
  have "getStream C cfg [Response r] = on_response C cfg initial r"
    by (simp add: getStream_def uncaught_initial step_def)
  then show ?case
    using awaiting_response [OF assms(1,2)] Nil by simp
next
  case (snoc c cs)
  let ?st = "getStream C cfg (Response r # map Data cs)"
  have u: "uncaught ?st = None"
    using snoc.prems run_uncaught_prefix [of C cfg initial "Response r # map Data cs" "[Data c]"]
    by (simp add: getStream_def)
  have e2: "getStream C cfg (Response r # map Data (cs @ [c])) = on_data C ?st c"
    using getStream_snoc [OF u, of "Data c"] by (simp add: step_def)
  have "awaiting r cs ?st"
    using snoc.IH u by simp
  then show ?case
    using awaiting_data [of r cs ?st C c] snoc.prems e2 by simp
qed

lemma completed_step:
  assumes "later_event ev" and "gen st = Some g" and "gstate g = Completed s"
  shows "\<exists>g'. gen (step C cfg st ev) = Some g' \<and> gstate g' = Completed s \<and> seen g' = seen g"
proof (cases ev)
  case (Data c)
  then show ?thesis
    using assms(2,3)
    by (auto simp: step_def on_data_def gen_next_def resolve_def split: option.splits)
next
  case End
  then show ?thesis
    using assms(2,3)
    by (auto simp: step_def on_end_def gen_next_def gen_throw_def gen_return_def finalize_def
        resolve_def reject_def Let_def split: option.splits)
next
  case (SocketData c)
  then show ?thesis
    using assms(2,3)
    by (auto simp: step_def on_socket_data_def resolve_def
        split: option.splits prod.splits sum.splits)
next
  case SocketEnd
  then show ?thesis
    using assms(2,3)
    by (auto simp: step_def on_socket_end_def resolve_def Let_def
        split: option.splits prod.splits sum.splits)
qed (use assms in \<open>auto simp: step_def on_error_def reject_def on_abort_def on_aborted_def
      cancellation_def split: impl.splits option.splits\<close>)

lemma completed_run:
  assumes "list_all later_event evs" and "gen st = Some g" and "gstate g = Completed s"
  shows "\<exists>g'. gen (run C cfg st evs) = Some g' \<and> gstate g' = Completed s \<and> seen g' = seen g"
  using assms
proof (induction evs arbitrary: st g)
  case Nil
  then show ?case by simp
next
  case (Cons ev evs)
  show ?case
  proof (cases "uncaught st = None")
    case True
    obtain g1 where g1: "gen (step C cfg st ev) = Some g1" "gstate g1 = Completed s" "seen g1 = seen g"
      using completed_step [of ev st g s C cfg] Cons.prems by auto
    have "list_all later_event evs" using Cons.prems(1) by simp
    from Cons.IH [OF this g1(1,2)] g1(3) True show ?thesis by simp
  next
    case False
    then show ?thesis using Cons.prems by simp
  qed
qed

text \<open>
  What the \<open>'data'\<close> handler does get right. An awaited request whose consumer,
  suspended after the chunks \<open>cs\<close>, returns \<open>v\<close> when it is resumed with the next
  chunk \<open>c\<close>: the promise was pending and is resolved by that chunk with the response
  whose body is \<open>v\<close> at that moment, the response is destroyed, and whatever events
  follow, the promise stays resolved and the consumer has seen exactly the chunks
  \<open>cs\<close> and \<open>c\<close>.
\<close>

lemma awaited_consumer_finishes_on_chunk:
  assumes "\<not> async cfg"
    and "statusCode r < 400"
    and "uncaught (getStream C cfg (Response r # map Data cs)) = None"
    and "gen (getStream C cfg (Response r # map Data cs)) = Some g"
    and "gstate g = SuspendedYield s"
    and "resume C s (Some c) = Return v s'"
    and "list_all later_event later"
  shows "promise (getStream C cfg (Response r # map Data cs)) = Pending \<and>
         promise (getStream C cfg (Response r # map Data cs @ [Data c])) = Resolved ByResponse \<and>
         fulfilled (getStream C cfg (Response r # map Data cs @ [Data c])) = Some (r\<lparr>body := v\<rparr>) \<and>
         destroyed (getStream C cfg (Response r # map Data cs @ [Data c])) = [None] \<and>
         promise (getStream C cfg (Response r # map Data cs @ Data c # later)) = Resolved ByResponse \<and>
         (\<exists>g'. gen (getStream C cfg (Response r # map Data cs @ Data c # later)) = Some g' \<and>
               gstate g' = Completed s' \<and>
               seen g' = map (CallNext \<circ> Some) (cs @ [c]))"
proof -
  let ?st = "getStream C cfg (Response r # map Data cs)"
  let ?st1 = "getStream C cfg (Response r # map Data cs @ [Data c])"
  have aw: "awaiting r cs ?st"
    using assms(1-3) by (rule awaiting_run)
  have inv: "promise ?st = Pending" "response ?st = Some r" "destroyed ?st = []"
      "seen g = map (CallNext \<circ> Some) cs"
    using aw assms(4,5) unfolding awaiting_def by auto
  have e: "?st1 = on_data C ?st c"
    using getStream_snoc [OF assms(3), of "Data c"] by (simp add: step_def)
  let ?g1 = "g\<lparr>gstate := Completed s', calls := calls g @ [CallNext (Some c)],
                seen := seen g @ [CallNext (Some c)]\<rparr>"
  have gn: "gen_next C g (Some c) = (Inr (IterResult v True), ?g1)"
    using assms(5,6) by (simp add: gen_next_def)
  have "on_data C ?st c = resolve ByResponse
      (?st\<lparr>gen := Some ?g1, destroyed := destroyed ?st @ [None],
           response := Some (r\<lparr>body := v\<rparr>)\<rparr>)"
    using assms(4) inv(2) gn by (simp add: on_data_def)
  then have st1: "?st1 = resolve ByResponse
      (?st\<lparr>gen := Some ?g1, destroyed := destroyed ?st @ [None],
           response := Some (r\<lparr>body := v\<rparr>)\<rparr>)"
    using e by simp
  have p1: "promise ?st1 = Resolved ByResponse"
    using inv(1) by (simp add: st1 resolve_def resolve_promise_def)
  have r1: "response ?st1 = Some (r\<lparr>body := v\<rparr>)"
    by (simp add: st1 resolve_def)
  have d1: "destroyed ?st1 = [None]"
    using inv(3) by (simp add: st1 resolve_def)
  have g1: "gen ?st1 = Some ?g1"
    by (simp add: st1 resolve_def)
  have l: "getStream C cfg (Response r # map Data cs @ Data c # later) = run C cfg ?st1 later"
    using getStream_append [of C cfg "Response r # map Data cs @ [Data c]" later] by simp
  have p2: "promise (run C cfg ?st1 later) = Resolved ByResponse"
    using promise_run [of ?st1 C cfg later] p1 by simp
  obtain g' where g': "gen (run C cfg ?st1 later) = Some g'" "gstate g' = Completed s'"
      "seen g' = seen ?g1"
    using completed_run [OF assms(7) g1, of s' C cfg] by auto
  have s2: "seen g' = map (CallNext \<circ> Some) (cs @ [c])"
    using g'(3) inv(4) by simp
  have f1: "fulfilled ?st1 = Some (r\<lparr>body := v\<rparr>)"
    using p1 r1 by (simp add: fulfilled_def)
  show ?thesis
    using inv(1) p1 f1 d1 p2 g'(1,2) s2 unfolding l by blast
qed

lemma take3_prefix:
  "getStream (take_consumer 3) awaited (Response ok_response # map Data [[1], [2]]) =
     \<lparr>clientAbort = False, serverAbort = False, promise = Pending,
      response = Some ok_response,
      gen = Some \<lparr>gstate = SuspendedYield 2,
                  calls = [CallNext None, CallNext (Some [1]), CallNext (Some [2])],
                  seen = [CallNext (Some [1]), CallNext (Some [2])]\<rparr>,
      upgraded = None, wsgen = None, request_aborted = False, destroyed = [],
      socket_ended = False, uncaught = None\<rparr>"
  by (simp add: driver_eval take_consumer_def awaited_def ok_response_def)

lemma awaited_consumer_finishes_on_chunk_example:
  "promise (getStream (take_consumer 3) awaited
      [Response ok_response, Data [1], Data [2], Data [3]]) = Resolved ByResponse \<and>
   fulfilled (getStream (take_consumer 3) awaited
      [Response ok_response, Data [1], Data [2], Data [3]]) =
     Some (ok_response\<lparr>body := Str ''done''\<rparr>) \<and>
   (\<exists>g'. gen (getStream (take_consumer 3) awaited
            [Response ok_response, Data [1], Data [2], Data [3], Data [4], Aborted, End]) = Some g' \<and>
         gstate g' = Completed 3 \<and>
         seen g' = [CallNext (Some [1]), CallNext (Some [2]), CallNext (Some [3])])"
proof -
  have a: "\<not> async awaited" by (simp add: awaited_def)
  have b: "statusCode ok_response < 400" by (simp add: ok_response_def)
  have c: "uncaught (getStream (take_consumer 3) awaited (Response ok_response # map Data [[1], [2]])) = None"
    by (simp only: take3_prefix) simp
  have d: "gen (getStream (take_consumer 3) awaited (Response ok_response # map Data [[1], [2]])) =
      Some \<lparr>gstate = SuspendedYield 2,
            calls = [CallNext None, CallNext (Some [1]), CallNext (Some [2])],
            seen = [CallNext (Some [1]), CallNext (Some [2])]\<rparr>"
    by (simp only: take3_prefix) simp
  have e: "gstate \<lparr>gstate = SuspendedYield (2::nat),
            calls = [CallNext None, CallNext (Some [1]), CallNext (Some [2])],
            seen = [CallNext (Some [1]), CallNext (Some [2])]\<rparr> = SuspendedYield 2"
    by simp
  have f: "resume (take_consumer 3) 2 (Some [3]) = Return (Str ''done'') 3"
    by (simp add: take_consumer_def)
  have g: "list_all later_event [Data [4], Aborted, End]" by simp
  show ?thesis
    using awaited_consumer_finishes_on_chunk [OF a b c d e f g] by simp
qed

text \<open>
  C4, at a consumer that returns \<open>"done"\<close> on its first chunk, with a second chunk
  already on its way. The first \<open>'data'\<close> event resolves the promise with body
  \<open>"done"\<close>. The second still runs the handler: \<open>gen.next(chunk)\<close> on the completed
  generator answers \<open>{value: undefined, done: true}\<close>, the branch \<open>if (res.done)\<close> is
  taken again and \<open>response.body = res.value\<close> stores \<open>undefined\<close> in the response
  object the promise was resolved with. The consumer itself has seen the first chunk
  only.
\<close>

theorem late_chunk_overwrites_resolved_body:
  "promise (getStream (take_consumer 1) awaited [Response ok_response, Data [1]]) =
     Resolved ByResponse \<and>
   fulfilled (getStream (take_consumer 1) awaited [Response ok_response, Data [1]]) =
     Some (ok_response\<lparr>body := Str ''done''\<rparr>) \<and>
   promise (getStream (take_consumer 1) awaited [Response ok_response, Data [1], Data [2]]) =
     Resolved ByResponse \<and>
   fulfilled (getStream (take_consumer 1) awaited [Response ok_response, Data [1], Data [2]]) =
     Some (ok_response\<lparr>body := Undefined\<rparr>) \<and>
   map_option seen (gen (getStream (take_consumer 1) awaited
      [Response ok_response, Data [1], Data [2]])) = Some [CallNext (Some [1])]"
  by (simp add: driver_eval fulfilled_def take_consumer_def awaited_def ok_response_def)

end
